theory Spec2Isabelle
  imports Complex_Main "HOL-Library.Sublist"
begin

section \<open>JavaScript values and strings\<close>

text \<open>
  The pages and the proxy route handle values that come out of \<^verbatim>\<open>JSON.parse\<close>
  (plus \<^verbatim>\<open>undefined\<close>, the result of reading a property that is not there).
  Numbers are observed only through their truthiness, so a number is its
  mathematical value. An object is the list of its own properties; a property is
  read with \<open>map_of\<close>, as \<^verbatim>\<open>k in val\<close> and \<^verbatim>\<open>val[k]\<close> read the same slot.

  Strings are lists of 8-bit characters: the code units of the source's strings,
  for text in the ASCII range (links, content identifiers, status words).
\<close>

datatype json =
    JUndef
  | JNull
  | JBool bool
  | JNum real
  | JStr string
  | JArr "json list"
  | JObj "(string \<times> json) list"

text \<open>\<^verbatim>\<open>!!v\<close>: the falsy values are undefined, null, false, 0 and the empty string.\<close>

fun truthy :: "json \<Rightarrow> bool" where
  "truthy JUndef = False"
| "truthy JNull = False"
| "truthy (JBool b) = b"
| "truthy (JNum n) = (n \<noteq> 0)"
| "truthy (JStr s) = (s \<noteq> [])"
| "truthy (JArr xs) = True"
| "truthy (JObj kvs) = True"

text \<open>\<^verbatim>\<open>v?.k\<close> and \<^verbatim>\<open>v.k\<close> on a value that is not null: a missing property, and any
  property of a scalar or an array that the code asks for, is undefined.\<close>

fun get_prop :: "json \<Rightarrow> string \<Rightarrow> json" where
  "get_prop (JObj kvs) k = (case map_of kvs k of Some v \<Rightarrow> v | None \<Rightarrow> JUndef)"
| "get_prop v k = JUndef"

text \<open>\<^verbatim>\<open>a || b\<close> and \<^verbatim>\<open>a ?? b\<close>.\<close>

definition js_or :: "json \<Rightarrow> json \<Rightarrow> json" where
  "js_or a b = (if truthy a then a else b)"

definition nullish :: "json \<Rightarrow> json \<Rightarrow> json" where
  "nullish a b = (if a = JUndef \<or> a = JNull then b else a)"

subsection \<open>String operations\<close>

text \<open>The white space and line terminators among the code units below 256, which
  \<^verbatim>\<open>String.prototype.trim\<close> removes at both ends: TAB, LF, VT, FF, CR, SP and the
  no-break space U+00A0.\<close>

definition is_ws :: "char \<Rightarrow> bool" where
  "is_ws c = (of_char c \<in> {9, 10, 11, 12, 13, 32, 160 :: nat})"

definition trim :: "string \<Rightarrow> string" where
  "trim s = rev (dropWhile is_ws (rev (dropWhile is_ws s)))"

text \<open>Matching under the \<^verbatim>\<open>i\<close> flag: an ASCII letter matches in both cases.\<close>

definition lower_code :: "char \<Rightarrow> nat" where
  "lower_code c = (let n = of_char c in if 65 \<le> n \<and> n \<le> 90 then n + 32 else n)"

definition ci_eq :: "char \<Rightarrow> char \<Rightarrow> bool" where
  "ci_eq a b = (lower_code a = lower_code b)"

text \<open>\<^verbatim>\<open>/^p/i.test(s)\<close> for a literal pattern \<open>p\<close>.\<close>

fun starts_ci :: "string \<Rightarrow> string \<Rightarrow> bool" where
  "starts_ci [] s = True"
| "starts_ci (p # ps) [] = False"
| "starts_ci (p # ps) (c # cs) = (ci_eq p c \<and> starts_ci ps cs)"

text \<open>\<^verbatim>\<open>s.replace(/^p/i, r)\<close> for a literal pattern \<open>p\<close> and a replacement
  without \<^verbatim>\<open>$\<close>.\<close>

definition replace_prefix_ci :: "string \<Rightarrow> string \<Rightarrow> string \<Rightarrow> string" where
  "replace_prefix_ci p r s = (if starts_ci p s then r @ drop (length p) s else s)"

text \<open>\<^verbatim>\<open>/^https?:\/\//i.test(s)\<close>.\<close>

definition is_http :: "string \<Rightarrow> bool" where
  "is_http s = (starts_ci ''http://'' s \<or> starts_ci ''https://'' s)"

section \<open>Link Normalizer\<close>

text \<open>
  \<^verbatim>\<open>normalize\<close>, the same text in the verification page (inside \<^verbatim>\<open>fetchIpfs\<close>) and
  in the proxy route. Both callers pass a string (the trimmed candidate link, the
  \<^verbatim>\<open>src\<close> query parameter), on which the coercion of the first line is the identity.
  The pattern \<^verbatim>\<open>/^\/?ipfs\//i\<close> matches a leading \<^verbatim>\<open>/ipfs/\<close> or a leading \<^verbatim>\<open>ipfs/\<close>.
\<close>

definition normalize_link :: "string \<Rightarrow> string" where
  "normalize_link val =
     (let link = trim val in
      if link = [] then []
      else if starts_ci ''ar://'' link then replace_prefix_ci ''ar://'' ''https://arweave.net/'' link
      else if is_http link then link
      else
        let link = replace_prefix_ci ''ipfs://'' [] link;
            link = (if starts_ci ''/ipfs/'' link then drop 6 link
                    else replace_prefix_ci ''ipfs/'' [] link);
            link = replace_prefix_ci ''ipfs/'' [] link
        in link)"

section \<open>Candidate Resolver\<close>

text \<open>\<^verbatim>\<open>s.split("/")\<close> and \<^verbatim>\<open>parts.join("/")\<close>.\<close>

fun split_slash :: "string \<Rightarrow> string list" where
  "split_slash [] = [[]]"
| "split_slash (c # cs) =
     (if c = CHR ''/'' then [] # split_slash cs
      else (case split_slash cs of [] \<Rightarrow> [[c]] | x # xs \<Rightarrow> (c # x) # xs))"

fun join_slash :: "string list \<Rightarrow> string" where
  "join_slash [] = []"
| "join_slash [x] = x"
| "join_slash (x # y # ys) = x @ ''/'' @ join_slash (y # ys)"

text \<open>
  The first lines of the \<^verbatim>\<open>else\<close> branch, the same in the page and in the route:
  \<^verbatim>\<open>parts = src.split("/").filter(Boolean)\<close>, \<^verbatim>\<open>cid = parts.shift() || ""\<close>,
  \<^verbatim>\<open>path = parts.length ? `/${parts.join("/")}` : ""\<close>.
\<close>

definition split_pointer :: "string \<Rightarrow> string \<times> string" where
  "split_pointer src =
     (let parts = filter (\<lambda>p. p \<noteq> []) (split_slash src);
          cid = (case parts of [] \<Rightarrow> [] | h # _ \<Rightarrow> h);
          parts = tl parts;
          path = (if parts \<noteq> [] then ''/'' @ join_slash parts else [])
      in (cid, path))"

definition pathGateways :: "(string \<Rightarrow> string \<Rightarrow> string) list" where
  "pathGateways =
     [\<lambda>h p. ''https://cloudflare-ipfs.com/ipfs/'' @ h @ p,
      \<lambda>h p. ''https://ipfs.io/ipfs/'' @ h @ p,
      \<lambda>h p. ''https://nftstorage.link/ipfs/'' @ h @ p,
      \<lambda>h p. ''https://dweb.link/ipfs/'' @ h @ p,
      \<lambda>h p. ''https://gateway.pinata.cloud/ipfs/'' @ h @ p]"

definition subdomainGateways :: "(string \<Rightarrow> string \<Rightarrow> string) list" where
  "subdomainGateways =
     [\<lambda>h p. ''https://'' @ h @ ''.ipfs.nftstorage.link'' @ p,
      \<lambda>h p. ''https://'' @ h @ ''.ipfs.dweb.link'' @ p]"

text \<open>\<^verbatim>\<open>buildCandidates\<close> of the proxy route.\<close>

definition buildCandidates :: "string \<Rightarrow> string list" where
  "buildCandidates src =
     (if is_http src then [src]
      else
        let (cid, path) = split_pointer src
        in map (\<lambda>g. g cid path) pathGateways @ map (\<lambda>g. g cid path) subdomainGateways)"

text \<open>The list \<^verbatim>\<open>tryUrls\<close> that \<^verbatim>\<open>fetchIpfs\<close> builds in the page
  (``Fallback to public gateways (path form)''); its \<^verbatim>\<open>gateways\<close> are the five
  path-style templates of \<open>pathGateways\<close>, in the same order.\<close>

definition clientCandidates :: "string \<Rightarrow> string list" where
  "clientCandidates normalized =
     (if is_http normalized then [normalized]
      else
        let (cid, path) = split_pointer normalized
        in map (\<lambda>g. g cid path) pathGateways)"

section \<open>The network\<close>

text \<open>The result of \<^verbatim>\<open>await\<close>ing a promise: its value, a rejection, or nothing ever.\<close>

datatype 'a awaited = Returns 'a | Throws | Hangs

text \<open>
  A response as the code reads it: \<^verbatim>\<open>r.ok\<close>, \<^verbatim>\<open>r.headers.get("content-type")\<close>
  (null when the header is absent) and what awaiting \<^verbatim>\<open>r.text()\<close> comes to: the text
  of the body, a rejection, or a body that never ends.
\<close>

record response =
  resp_ok :: bool
  resp_content_type :: "string option"
  resp_body :: "string awaited"

text \<open>What the network does with a request to a URL: it answers after some
  milliseconds, it rejects, or it never settles.\<close>

datatype outcome = Responds nat response | Rejects | Never

text \<open>The environment of a run: the network, and \<^verbatim>\<open>JSON.parse\<close> (\<open>None\<close> when it
  throws).\<close>

record env =
  net :: "string \<Rightarrow> outcome"
  parseJSON :: "string \<Rightarrow> json option"

text \<open>\<^verbatim>\<open>fetch(url, {...})\<close> with no abort signal, as both calls of the page are.\<close>

definition fetch :: "env \<Rightarrow> string \<Rightarrow> response awaited" where
  "fetch e url =
     (case net e url of
        Responds t r \<Rightarrow> Returns r
      | Rejects \<Rightarrow> Throws
      | Never \<Rightarrow> Hangs)"

text \<open>\<^verbatim>\<open>fetchWithTimeout(url, ms)\<close> of the proxy route: the timer aborts the request
  after \<open>ms\<close> milliseconds, which rejects the \<^verbatim>\<open>fetch\<close>; a response before that is
  returned, and the \<^verbatim>\<open>finally\<close> block clears the timer, so that the body is read
  with no timer running.\<close>

definition fetchWithTimeout :: "env \<Rightarrow> string \<Rightarrow> nat \<Rightarrow> response awaited" where
  "fetchWithTimeout e url ms =
     (case net e url of
        Responds t r \<Rightarrow> (if t < ms then Returns r else Throws)
      | Rejects \<Rightarrow> Throws
      | Never \<Rightarrow> Throws)"

text \<open>\<^verbatim>\<open>await r.json()\<close>: the body, parsed; and \<^verbatim>\<open>ct.includes(p)\<close>.\<close>

definition read_json :: "env \<Rightarrow> response \<Rightarrow> json awaited" where
  "read_json e r =
     (case resp_body r of
        Returns b \<Rightarrow> (case parseJSON e b of Some j \<Rightarrow> Returns j | None \<Rightarrow> Throws)
      | Throws \<Rightarrow> Throws
      | Hangs \<Rightarrow> Hangs)"

fun js_includes :: "string \<Rightarrow> string \<Rightarrow> bool" where
  "js_includes [] p = (p = [])"
| "js_includes (c # cs) p = (prefix p (c # cs) \<or> js_includes cs p)"

definition json_flavoured :: "string \<Rightarrow> bool" where
  "json_flavoured ct = (js_includes ct ''application/json'' \<or> js_includes ct ''text/json'')"

definition content_type_of :: "response \<Rightarrow> string" where
  "content_type_of r = (case resp_content_type r of None \<Rightarrow> [] | Some ct \<Rightarrow> ct)"

text \<open>What one pass of a \<^verbatim>\<open>try\<close> block around a request comes to: the block
  threw or skipped (\<open>Failed\<close>), it never finished (\<open>Stuck\<close>), or it got a result.\<close>

datatype 'a attempt = Failed | Stuck | Got 'a

text \<open>What a function that awaits comes to: it returned, or it is still waiting
  (with the state and the requests it had made by then).\<close>

datatype ('a, 'b) run = Returned 'a | Pending 'b

section \<open>Fetch Pipeline of the verification page\<close>

text \<open>\<^verbatim>\<open>encodeURIComponent\<close>: letters, digits and \<^verbatim>\<open>- _ . ! ~ * ' ( )\<close> stay, every other
  code unit becomes the percent-escapes of its UTF-8 bytes. (It throws on a lone
  surrogate only, which a string of 8-bit code units does not have.)\<close>

definition hex_digit :: "nat \<Rightarrow> char" where
  "hex_digit n = ''0123456789ABCDEF'' ! (n mod 16)"

definition percent :: "nat \<Rightarrow> string" where
  "percent n = [CHR ''%'', hex_digit (n div 16), hex_digit n]"

definition uri_unreserved :: "char \<Rightarrow> bool" where
  "uri_unreserved c =
     (let n = of_char c :: nat
      in (48 \<le> n \<and> n \<le> 57) \<or> (65 \<le> n \<and> n \<le> 90) \<or> (97 \<le> n \<and> n \<le> 122)
         \<or> n \<in> {45, 95, 46, 33, 126, 42, 39, 40, 41})"

definition encode_unit :: "char \<Rightarrow> string" where
  "encode_unit c =
     (let n = of_char c :: nat
      in if uri_unreserved c then [c]
         else if n < 128 then percent n
         else percent (192 + n div 64) @ percent (128 + n mod 64))"

definition encodeURIComponent :: "string \<Rightarrow> string" where
  "encodeURIComponent s = concat (map encode_unit s)"

definition proxyUrl :: "string \<Rightarrow> string" where
  "proxyUrl normalized = ''/api/ipfs?src='' @ encodeURIComponent normalized"

text \<open>The state of the page that \<^verbatim>\<open>fetchIpfs\<close> writes (\<open>JNull\<close> for null).\<close>

record ipfs_state =
  ipfsData :: json
  ipfsLoading :: bool
  ipfsError :: "string option"
  ipfsResolvedUrl :: json
  ipfsFallbackUrls :: "string list"

text \<open>
  The first \<^verbatim>\<open>try\<close> block of \<^verbatim>\<open>fetchIpfs\<close>: the request to the proxy, \<^verbatim>\<open>pr.ok\<close>,
  \<^verbatim>\<open>await pr.json()\<close> and \<^verbatim>\<open>payload?.ok\<close>. The block gives the payload when it reaches
  its \<^verbatim>\<open>return\<close>; an exception is swallowed by the empty \<^verbatim>\<open>catch\<close>.
\<close>

definition proxy_attempt :: "env \<Rightarrow> string \<Rightarrow> json attempt" where
  "proxy_attempt e url =
     (case fetch e url of
        Hangs \<Rightarrow> Stuck
      | Throws \<Rightarrow> Failed
      | Returns pr \<Rightarrow>
          if resp_ok pr then
            (case read_json e pr of
               Hangs \<Rightarrow> Stuck
             | Throws \<Rightarrow> Failed
             | Returns payload \<Rightarrow>
                 if truthy (get_prop payload ''ok'') then Got payload else Failed)
          else Failed)"

text \<open>The body of the loop over \<^verbatim>\<open>tryUrls\<close>: the data it would store.\<close>

definition gateway_attempt :: "env \<Rightarrow> string \<Rightarrow> json attempt" where
  "gateway_attempt e url =
     (case fetch e url of
        Hangs \<Rightarrow> Stuck
      | Throws \<Rightarrow> Failed
      | Returns r \<Rightarrow>
          if \<not> resp_ok r then Failed
          else if json_flavoured (content_type_of r) then
            (case read_json e r of Hangs \<Rightarrow> Stuck | Throws \<Rightarrow> Failed | Returns j \<Rightarrow> Got j)
          else
            (case resp_body r of
               Hangs \<Rightarrow> Stuck
             | Throws \<Rightarrow> Failed
             | Returns text \<Rightarrow>
                 Got (case parseJSON e text of
                        Some j \<Rightarrow> j
                      | None \<Rightarrow> JObj [(''content'', JStr text)])))"

text \<open>The loop: the flag \<^verbatim>\<open>success\<close>, the state and the requests made so far.\<close>

fun try_gateways ::
  "env \<Rightarrow> string list \<Rightarrow> ipfs_state \<times> string list
     \<Rightarrow> (bool \<times> ipfs_state \<times> string list, ipfs_state \<times> string list) run" where
  "try_gateways e [] (s, reqs) = Returned (False, s, reqs)"
| "try_gateways e (url # urls) (s, reqs) =
     (case gateway_attempt e url of
        Stuck \<Rightarrow> Pending (s, reqs @ [url])
      | Failed \<Rightarrow> try_gateways e urls (s, reqs @ [url])
      | Got d \<Rightarrow> Returned (True, s\<lparr>ipfsData := d, ipfsResolvedUrl := JStr url\<rparr>, reqs @ [url]))"

definition gateways_failed_message :: string where
  "gateways_failed_message = ''Unable to load IPFS content from public gateways.''"

text \<open>\<^verbatim>\<open>fetchIpfs\<close>, from the state before the call to the state after it and the
  URLs it requested, in order.\<close>

definition fetchIpfs ::
  "env \<Rightarrow> ipfs_state \<Rightarrow> string
     \<Rightarrow> (ipfs_state \<times> string list, ipfs_state \<times> string list) run" where
  "fetchIpfs e s rawIpfs =
     (if rawIpfs = [] then Returned (s, [])
      else
        let s = s\<lparr>ipfsLoading := True, ipfsError := None, ipfsData := JNull,
                   ipfsResolvedUrl := JNull\<rparr>;
            normalized = normalize_link rawIpfs
        in if normalized = [] then Returned (s\<lparr>ipfsLoading := False\<rparr>, [])
           else
             (case proxy_attempt e (proxyUrl normalized) of
                Stuck \<Rightarrow> Pending (s, [proxyUrl normalized])
              | Got payload \<Rightarrow>
                  Returned
                    (s\<lparr>ipfsData := get_prop payload ''data'',
                       ipfsResolvedUrl := js_or (get_prop payload ''resolvedUrl'') JNull,
                       ipfsError := None,
                       ipfsLoading := False\<rparr>,
                     [proxyUrl normalized])
              | Failed \<Rightarrow>
                  let tryUrls = clientCandidates normalized;
                      s = s\<lparr>ipfsFallbackUrls := tryUrls\<rparr>
                  in (case try_gateways e tryUrls (s, [proxyUrl normalized]) of
                        Pending p \<Rightarrow> Pending p
                      | Returned (success, s, reqs) \<Rightarrow>
                          let s = (if \<not> success
                                   then s\<lparr>ipfsError := Some gateways_failed_message\<rparr>
                                   else s)
                          in Returned (s\<lparr>ipfsLoading := False\<rparr>, reqs))))"

section \<open>The proxy endpoint\<close>

record reply =
  reply_status :: nat
  reply_json :: json

text \<open>The body of the loop of \<^verbatim>\<open>GET\<close>: the content type and the data of the
  envelope it would return.\<close>

definition server_attempt :: "env \<Rightarrow> string \<Rightarrow> (string \<times> json) attempt" where
  "server_attempt e url =
     (case fetchWithTimeout e url 8000 of
        Hangs \<Rightarrow> Stuck
      | Throws \<Rightarrow> Failed
      | Returns r \<Rightarrow>
          if \<not> resp_ok r then Failed
          else
            let ct = content_type_of r
            in if json_flavoured ct then
                 (case read_json e r of
                    Hangs \<Rightarrow> Stuck
                  | Throws \<Rightarrow> Failed
                  | Returns d \<Rightarrow> Got (ct, d))
               else
                 (case resp_body r of
                    Hangs \<Rightarrow> Stuck
                  | Throws \<Rightarrow> Failed
                  | Returns text \<Rightarrow>
                      Got (ct, case parseJSON e text of Some j \<Rightarrow> j | None \<Rightarrow> JStr text)))"

fun GET_loop ::
  "env \<Rightarrow> string list \<Rightarrow> string list \<Rightarrow> (reply option \<times> string list, string list) run" where
  "GET_loop e [] reqs = Returned (None, reqs)"
| "GET_loop e (url # urls) reqs =
     (case server_attempt e url of
        Stuck \<Rightarrow> Pending (reqs @ [url])
      | Failed \<Rightarrow> GET_loop e urls (reqs @ [url])
      | Got (ct, d) \<Rightarrow>
          Returned
            (Some \<lparr>reply_status = 200,
                   reply_json = JObj [(''ok'', JBool True), (''resolvedUrl'', JStr url),
                                      (''contentType'', JStr ct), (''data'', d)]\<rparr>,
             reqs @ [url]))"

text \<open>\<^verbatim>\<open>GET\<close>, from the value of \<^verbatim>\<open>searchParams.get("src")\<close> (\<open>None\<close> for null) to the
  reply and the URLs it requested.\<close>

definition GET :: "env \<Rightarrow> string option \<Rightarrow> (reply \<times> string list, string list) run" where
  "GET e src_param =
     (let raw = (case src_param of None \<Rightarrow> [] | Some v \<Rightarrow> v);
          src = normalize_link raw
      in if src = [] then
           Returned
             (\<lparr>reply_status = 400,
               reply_json = JObj [(''ok'', JBool False),
                                  (''error'', JStr ''Missing or invalid src'')]\<rparr>, [])
         else
           let tryUrls = buildCandidates src
           in (case GET_loop e tryUrls [] of
                 Pending reqs \<Rightarrow> Pending reqs
               | Returned (Some r, reqs) \<Rightarrow> Returned (r, reqs)
               | Returned (None, reqs) \<Rightarrow>
                   Returned
                     (\<lparr>reply_status = 502,
                       reply_json =
                         JObj [(''ok'', JBool False),
                               (''error'',
                                JStr ''All public gateways failed (timeout/CORS/content missing).''),
                               (''candidates'', JArr (map JStr tryUrls))]\<rparr>, reqs)))"

section \<open>Pointer extraction\<close>

text \<open>The list \<^verbatim>\<open>keys\<close> of \<^verbatim>\<open>extractIpfsLink\<close>, in its order.\<close>

definition link_keys :: "string list" where
  "link_keys =
     [''ipfs_link'', ''ipfs'', ''ip_fs_link'', ''tokenURI'', ''tokenUri'', ''url'', ''uri'',
      ''href'', ''link'', ''src'', ''path'', ''image'', ''animation_url'', ''metadata_uri'',
      ''gateway'', ''cid'', ''hash'', ''/'']"

text \<open>
  \<^verbatim>\<open>isStringCid\<close>: the test of \<^verbatim>\<open>/^(Qm[1-9A-HJ-NP-Za-km-z]{44,}|bafy[\w-]{20,})$/i\<close>.
  Under the \<^verbatim>\<open>i\<close> flag the class \<^verbatim>\<open>[1-9A-HJ-NP-Za-km-z]\<close> holds every ASCII letter
  (\<^verbatim>\<open>I\<close> and \<^verbatim>\<open>O\<close> through \<^verbatim>\<open>i\<close> and \<^verbatim>\<open>o\<close>, \<^verbatim>\<open>l\<close> through \<^verbatim>\<open>L\<close>) and the digits 1 to 9;
  \<^verbatim>\<open>[\w-]\<close> is a letter, a digit, \<^verbatim>\<open>_\<close> or \<^verbatim>\<open>-\<close>.
\<close>

definition is_base58_ci :: "char \<Rightarrow> bool" where
  "is_base58_ci c =
     (let n = of_char c :: nat
      in (49 \<le> n \<and> n \<le> 57) \<or> (65 \<le> n \<and> n \<le> 90) \<or> (97 \<le> n \<and> n \<le> 122))"

definition is_word_or_dash :: "char \<Rightarrow> bool" where
  "is_word_or_dash c =
     (let n = of_char c :: nat
      in (48 \<le> n \<and> n \<le> 57) \<or> (65 \<le> n \<and> n \<le> 90) \<or> (97 \<le> n \<and> n \<le> 122)
         \<or> n = 95 \<or> n = 45)"

definition isStringCid :: "string \<Rightarrow> bool" where
  "isStringCid s =
     ((starts_ci ''Qm'' s \<and> 44 \<le> length (drop 2 s) \<and> list_all is_base58_ci (drop 2 s))
      \<or> (starts_ci ''bafy'' s \<and> 20 \<le> length (drop 4 s) \<and> list_all is_word_or_dash (drop 4 s)))"

text \<open>The fallback after the loop over the keys: \<^verbatim>\<open>possible\<close> is the first truthy
  value of \<^verbatim>\<open>[val.cid, val.hash, val["/"]]\<close>.\<close>

definition cid_fallback :: "(string \<times> json) list \<Rightarrow> string option" where
  "cid_fallback kvs =
     (let val = JObj kvs;
          possible = (case filter truthy [get_prop val ''cid'', get_prop val ''hash'', get_prop val ''/''] of
                        [] \<Rightarrow> JUndef
                      | p # _ \<Rightarrow> p)
      in case possible of
           JStr p \<Rightarrow> if isStringCid p \<or> prefix ''ipfs://'' p then Some p else None
         | _ \<Rightarrow> None)"

text \<open>
  \<^verbatim>\<open>extractIpfsLink\<close> (\<open>None\<close> for null), with its loop over an array
  (\<open>extract_items\<close>) and its loop over the keys (\<open>extract_keys\<close>); each loop returns the
  first result that is truthy, that is a string that is not empty.
\<close>

function extractIpfsLink :: "json \<Rightarrow> string option"
  and extract_items :: "json list \<Rightarrow> string option"
  and extract_keys :: "(string \<times> json) list \<Rightarrow> string list \<Rightarrow> string option"
where
  "extractIpfsLink JUndef = None"
| "extractIpfsLink JNull = None"
| "extractIpfsLink (JBool b) = None"
| "extractIpfsLink (JNum n) = None"
| "extractIpfsLink (JStr s) = (if s = [] then None else Some (trim s))"
| "extractIpfsLink (JArr xs) = extract_items xs"
| "extractIpfsLink (JObj kvs) =
     (case extract_keys kvs link_keys of
        Some got \<Rightarrow> Some got
      | None \<Rightarrow> cid_fallback kvs)"
| "extract_items [] = None"
| "extract_items (it # rest) =
     (case extractIpfsLink it of
        None \<Rightarrow> extract_items rest
      | Some got \<Rightarrow> if got \<noteq> [] then Some got else extract_items rest)"
| "extract_keys kvs [] = None"
| "extract_keys kvs (k # ks) =
     (case map_of kvs k of
        None \<Rightarrow> extract_keys kvs ks
      | Some v \<Rightarrow>
          (case extractIpfsLink v of
             None \<Rightarrow> extract_keys kvs ks
           | Some got \<Rightarrow> if got \<noteq> [] then Some got else extract_keys kvs ks))"
  by pat_completeness auto
termination
proof -
  have smaller: "size v < size_list (size_prod (\<lambda>_. 0) size) kvs"
    if "map_of kvs k = Some v" for kvs :: "(string \<times> json) list" and k v
    using that by (induction kvs) (auto split: if_splits)
  show ?thesis
    by (relation "inv_image (less_than <*lex*> less_than)
         (\<lambda>x. case x of
            Inl v \<Rightarrow> (size v, 0)
          | Inr (Inl xs) \<Rightarrow> (size_list size xs, 0)
          | Inr (Inr (kvs, ks)) \<Rightarrow> (size_list (size_prod (\<lambda>_. 0) size) kvs, Suc (length ks)))")
      (auto dest: smaller)
qed

section \<open>Attribute Extractor and date display\<close>

text \<open>The trait type of an entry as the predicate of \<^verbatim>\<open>attrs.find\<close> reads it:
  \<^verbatim>\<open>a?.trait_type || a?.traitType\<close>.\<close>

definition trait_of :: "json \<Rightarrow> json" where
  "trait_of a = js_or (get_prop a ''trait_type'') (get_prop a ''traitType'')"

text \<open>\<^verbatim>\<open>getAttr\<close>, with the page's \<^verbatim>\<open>ipfsData\<close> as an argument; the result is \<open>JNull\<close>
  for null. Comparing with \<^verbatim>\<open>===\<close> to the string \<^verbatim>\<open>key\<close> holds for that string only.\<close>

definition getAttr :: "json \<Rightarrow> string \<Rightarrow> json" where
  "getAttr ipfs_data key =
     (case get_prop ipfs_data ''attributes'' of
        JArr attrs \<Rightarrow>
          (case find (\<lambda>a. trait_of a = JStr key) attrs of
             None \<Rightarrow> JNull
           | Some found \<Rightarrow> nullish (get_prop found ''value'') JNull)
      | _ \<Rightarrow> JNull)"

text \<open>The placeholder of \<^verbatim>\<open>formatDate\<close>, an em dash (U+2014), by its UTF-8 bytes.\<close>

definition em_dash :: string where
  "em_dash = [CHR 0xE2, CHR 0x80, CHR 0x94]"

text \<open>
  \<^verbatim>\<open>formatDate\<close>. The platform's date parser and formatter are arguments:
  \<open>parseDate d\<close> is \<^verbatim>\<open>new Date(d)\<close>, \<open>None\<close> when its time is NaN, and
  \<open>toLocaleDateString\<close> formats a valid date. A missing argument is \<open>None\<close>.
\<close>

definition formatDate ::
  "(string \<Rightarrow> 'date option) \<Rightarrow> ('date \<Rightarrow> string) \<Rightarrow> string option \<Rightarrow> string" where
  "formatDate parseDate toLocaleDateString d =
     (case d of
        None \<Rightarrow> em_dash
      | Some d \<Rightarrow>
          if d = [] then em_dash
          else (case parseDate d of
                  None \<Rightarrow> d
                | Some dt \<Rightarrow> toLocaleDateString dt))"

section \<open>Verification status of the credential-info response\<close>

datatype verification_status = VERIFIED | NOT_FOUND | TAMPERED

text \<open>
  The mapping that \<^verbatim>\<open>VerifyByUuidPage\<close> and \<^verbatim>\<open>VerifierPortalPage\<close> both apply to
  \<^verbatim>\<open>res.data\<close>. The platform's \<^verbatim>\<open>toString\<close> and \<^verbatim>\<open>toUpperCase\<close> are arguments.
\<close>

definition rawStatus :: "(json \<Rightarrow> string) \<Rightarrow> (string \<Rightarrow> string) \<Rightarrow> json \<Rightarrow> string" where
  "rawStatus toString toUpperCase res_data =
     (let data = js_or res_data (JObj [])
      in toUpperCase
           (toString (js_or (js_or (get_prop data ''status'') (get_prop data ''result''))
                            (JStr []))))"

definition verified_words :: "string list" where
  "verified_words = [''VERIFIED'', ''VALID'', ''SUCCESS'']"

definition not_found_words :: "string list" where
  "not_found_words = [''NOT_FOUND'', ''MISSING'', ''NO_MATCH'']"

definition tampered_words :: "string list" where
  "tampered_words = [''TAMPERED'', ''INVALID'', ''MANIPULATED'']"

definition mapStatus :: "string \<Rightarrow> verification_status" where
  "mapStatus raw =
     (if raw \<in> set verified_words then VERIFIED
      else if raw \<in> set not_found_words then NOT_FOUND
      else if raw \<in> set tampered_words then TAMPERED
      else VERIFIED)"

definition credential_status ::
  "(json \<Rightarrow> string) \<Rightarrow> (string \<Rightarrow> string) \<Rightarrow> json \<Rightarrow> verification_status" where
  "credential_status toString toUpperCase res_data =
     mapStatus (rawStatus toString toUpperCase res_data)"

text \<open>
  For the examples. \<^verbatim>\<open>toString\<close> on a value that is not null or undefined: a string
  is itself, a boolean its word, an array its elements joined by commas (a null or
  undefined element gives the empty string), an object \<^verbatim>\<open>[object Object]\<close>; the digits
  of a number are the platform's and stay an argument. The status mapping never
  applies it to null or undefined, for which the empty string stands here.
  \<^verbatim>\<open>toUpperCase\<close> on ASCII text raises the letters \<^verbatim>\<open>a\<close> to \<^verbatim>\<open>z\<close>.
\<close>

fun join_comma :: "string list \<Rightarrow> string" where
  "join_comma [] = []"
| "join_comma [x] = x"
| "join_comma (x # y # ys) = x @ '','' @ join_comma (y # ys)"

fun js_toString :: "(real \<Rightarrow> string) \<Rightarrow> json \<Rightarrow> string" where
  "js_toString num (JStr s) = s"
| "js_toString num (JBool b) = (if b then ''true'' else ''false'')"
| "js_toString num (JNum n) = num n"
| "js_toString num (JArr xs) =
     join_comma (map (\<lambda>x. if x = JNull \<or> x = JUndef then [] else js_toString num x) xs)"
| "js_toString num (JObj kvs) = ''[object Object]''"
| "js_toString num JNull = []"
| "js_toString num JUndef = []"

definition ascii_toUpperCase :: "string \<Rightarrow> string" where
  "ascii_toUpperCase s =
     map (\<lambda>c. case map_of (zip ''abcdefghijklmnopqrstuvwxyz'' ''ABCDEFGHIJKLMNOPQRSTUVWXYZ'') c of
                 Some u \<Rightarrow> u
               | None \<Rightarrow> c) s"

section \<open>Notions of the specification\<close>

text \<open>A subdomain-style URL for an identifier and a path:
  \<^verbatim>\<open>https://<id>.ipfs.<gateway-suffix><path>\<close>.\<close>

definition subdomain_style :: "string \<Rightarrow> string \<Rightarrow> string \<Rightarrow> bool" where
  "subdomain_style cid path url = (prefix (''https://'' @ cid @ ''.ipfs.'') url \<and> suffix path url)"

text \<open>
  A protocol prefix of any scheme: a scheme name (letters, digits, \<^verbatim>\<open>+\<close>, \<^verbatim>\<open>-\<close>, \<^verbatim>\<open>.\<close>)
  followed by \<^verbatim>\<open>://\<close>. A bare identifier is a string that is not empty, has no
  protocol prefix and no leading \<^verbatim>\<open>/ipfs/\<close> or \<^verbatim>\<open>ipfs/\<close>.
\<close>

definition is_scheme_char :: "char \<Rightarrow> bool" where
  "is_scheme_char c =
     (let n = of_char c :: nat
      in (48 \<le> n \<and> n \<le> 57) \<or> (65 \<le> n \<and> n \<le> 90) \<or> (97 \<le> n \<and> n \<le> 122)
         \<or> n = 43 \<or> n = 45 \<or> n = 46)"

definition spec_protocol_prefix :: "string \<Rightarrow> bool" where
  "spec_protocol_prefix s =
     (takeWhile is_scheme_char s \<noteq> [] \<and> prefix ''://'' (dropWhile is_scheme_char s))"

definition bare_identifier :: "string \<Rightarrow> bool" where
  "bare_identifier x =
     (x \<noteq> [] \<and> \<not> spec_protocol_prefix x \<and> \<not> starts_ci ''/ipfs/'' x \<and> \<not> starts_ci ''ipfs/'' x)"

text \<open>
  A string \<open>p\<close> is an occurrence of the literal \<open>pat\<close> when it has the length of \<open>pat\<close>
  and agrees with it up to the case of the ASCII letters.
\<close>

definition matches_ci :: "string \<Rightarrow> string \<Rightarrow> bool" where
  "matches_ci pat p = (length p = length pat \<and> starts_ci pat p)"

text \<open>
  A key gives nothing to the loop over the keys of \<^verbatim>\<open>extractIpfsLink\<close> when the object
  does not have it, or when the extraction from its value is null or the empty
  string. \<open>keys_before k\<close> are the keys that the loop visits before \<open>k\<close>.
\<close>

definition key_silent :: "(string \<times> json) list \<Rightarrow> string \<Rightarrow> bool" where
  "key_silent kvs k =
     (case map_of kvs k of
        None \<Rightarrow> True
      | Some v \<Rightarrow> extractIpfsLink v = None \<or> extractIpfsLink v = Some [])"

definition keys_before :: "string \<Rightarrow> string list" where
  "keys_before k = takeWhile (\<lambda>k'. k' \<noteq> k) link_keys"

section \<open>Runs and examples\<close>

text \<open>The URLs that a run of \<^verbatim>\<open>fetchIpfs\<close> requested, whether it returned or not.\<close>

definition requests_made :: "('s \<times> string list, 's \<times> string list) run \<Rightarrow> string list" where
  "requests_made r = (case r of Returned (s, reqs) \<Rightarrow> reqs | Pending (s, reqs) \<Rightarrow> reqs)"

text \<open>The state of the page before any call: the initial values of its \<^verbatim>\<open>useState\<close>
  hooks.\<close>

definition initial_ipfs_state :: ipfs_state where
  "initial_ipfs_state =
     \<lparr>ipfsData = JNull, ipfsLoading = False, ipfsError = None, ipfsResolvedUrl = JNull,
      ipfsFallbackUrls = []\<rparr>"

text \<open>
  Environments for the examples: a proxy that answers with a success envelope, a
  network that rejects every request, a network that never answers, a network
  where the first gateway answers with a body that never ends, a network where the
  proxy and the first gateway reject and the other gateways never answer, and a
  network where one gateway (\<^verbatim>\<open>ipfs.io\<close>) answers with JSON metadata.
\<close>

definition example_envelope :: json where
  "example_envelope =
     JObj [(''ok'', JBool True), (''resolvedUrl'', JStr ''https://ipfs.io/ipfs/QmX''),
           (''contentType'', JStr ''application/json''),
           (''data'', JObj [(''name'', JStr ''BSc Physics'')])]"

definition proxy_up :: env where
  "proxy_up =
     \<lparr>net = (\<lambda>u. if u = ''/api/ipfs?src=QmX''
                 then Responds 120 \<lparr>resp_ok = True, resp_content_type = Some ''application/json'',
                                     resp_body = Returns ''envelope''\<rparr>
                 else Rejects),
      parseJSON = (\<lambda>b. if b = ''envelope'' then Some example_envelope else None)\<rparr>"


definition network_silent :: env where
  "network_silent = \<lparr>net = (\<lambda>u. Never), parseJSON = (\<lambda>b. None)\<rparr>"

definition gateway_stalls :: env where
  "gateway_stalls =
     \<lparr>net = (\<lambda>u. if u = ''https://cloudflare-ipfs.com/ipfs/QmX''
                 then Responds 300 \<lparr>resp_ok = True, resp_content_type = Some ''application/json'',
                                     resp_body = Hangs\<rparr>
                 else Rejects),
      parseJSON = (\<lambda>b. None)\<rparr>"

definition gateway_silent :: env where
  "gateway_silent =
     \<lparr>net = (\<lambda>u. if u = ''/api/ipfs?src=QmX'' \<or> u = ''https://cloudflare-ipfs.com/ipfs/QmX''
                 then Rejects else Never),
      parseJSON = (\<lambda>b. None)\<rparr>"

definition gateway_up :: env where
  "gateway_up =
     \<lparr>net = (\<lambda>u. if u = ''https://ipfs.io/ipfs/QmX''
                 then Responds 300 \<lparr>resp_ok = True, resp_content_type = Some ''application/json'',
                                     resp_body = Returns ''metadata''\<rparr>
                 else Rejects),
      parseJSON = (\<lambda>b. if b = ''metadata'' then Some (JObj [(''name'', JStr ''BSc Physics'')])
                         else None)\<rparr>"

section \<open>Properties\<close>

subsection \<open>Evaluation on concrete links\<close>

text \<open>The identifier \<^verbatim>\<open>QmX\<close> through the normalizer, the proxy URL and the two
  candidate lists; an identifier with a space and a path shows the escapes.\<close>

lemmas string_eval =
  trim_def is_ws_def ci_eq_def lower_code_def replace_prefix_ci_def is_http_def

lemmas url_eval =
  proxyUrl_def encodeURIComponent_def encode_unit_def uri_unreserved_def percent_def hex_digit_def

lemma normalize_QmX: "normalize_link ''QmX'' = ''QmX''"
  by (simp add: normalize_link_def string_eval)

lemma proxyUrl_QmX: "proxyUrl ''QmX'' = ''/api/ipfs?src=QmX''"
  by (simp add: url_eval)

lemma proxyUrl_path: "proxyUrl ''Qm X/a.json'' = ''/api/ipfs?src=Qm%20X%2Fa.json''"
  by (simp add: url_eval)

lemma clientCandidates_QmX:
  "clientCandidates ''QmX'' =
     [''https://cloudflare-ipfs.com/ipfs/QmX'', ''https://ipfs.io/ipfs/QmX'',
      ''https://nftstorage.link/ipfs/QmX'', ''https://dweb.link/ipfs/QmX'',
      ''https://gateway.pinata.cloud/ipfs/QmX'']"
  by (simp add: clientCandidates_def split_pointer_def pathGateways_def string_eval)

lemma buildCandidates_QmX:
  "buildCandidates ''QmX'' =
     [''https://cloudflare-ipfs.com/ipfs/QmX'', ''https://ipfs.io/ipfs/QmX'',
      ''https://nftstorage.link/ipfs/QmX'', ''https://dweb.link/ipfs/QmX'',
      ''https://gateway.pinata.cloud/ipfs/QmX'', ''https://QmX.ipfs.nftstorage.link'',
      ''https://QmX.ipfs.dweb.link'']"
  by (simp add: buildCandidates_def split_pointer_def pathGateways_def subdomainGateways_def
      string_eval)

subsection \<open>The loops over the candidates\<close>

lemma trim_Nil [simp]: "trim [] = []"
  by (simp add: trim_def)

lemma normalize_link_Nil [simp]: "normalize_link [] = []"
  by (simp add: normalize_link_def)

lemma not_is_http_proxyUrl: "\<not> is_http (proxyUrl n)"
  by (simp add: is_http_def proxyUrl_def ci_eq_def lower_code_def)

lemma clientCandidates_http: "u \<in> set (clientCandidates n) \<Longrightarrow> is_http u"
  by (auto simp: clientCandidates_def pathGateways_def is_http_def ci_eq_def split: if_splits prod.splits)

lemma proxyUrl_not_candidate: "proxyUrl n \<notin> set (clientCandidates m)"
  using clientCandidates_http not_is_http_proxyUrl by blast

text \<open>What a failed attempt is: the request was rejected, or it was answered and the
  answer was not ok, or reading its body threw (for the proxy: or its envelope was
  not ok).\<close>

lemma proxy_attempt_Failed_iff:
  "proxy_attempt e url = Failed \<longleftrightarrow>
     net e url = Rejects
     \<or> (\<exists>t pr. net e url = Responds t pr
           \<and> (\<not> resp_ok pr \<or> read_json e pr = Throws
               \<or> (\<exists>payload. read_json e pr = Returns payload
                      \<and> \<not> truthy (get_prop payload ''ok''))))"
  by (auto simp: proxy_attempt_def fetch_def split: outcome.splits awaited.splits)

lemma gateway_attempt_Failed_iff:
  "gateway_attempt e url = Failed \<longleftrightarrow>
     net e url = Rejects
     \<or> (\<exists>t r. net e url = Responds t r
           \<and> (\<not> resp_ok r
               \<or> (json_flavoured (content_type_of r) \<and> read_json e r = Throws)
               \<or> (\<not> json_flavoured (content_type_of r) \<and> resp_body r = Throws)))"
  by (auto simp: gateway_attempt_def fetch_def split: outcome.splits awaited.splits)


lemma try_gateways_requests:
  "\<exists>pre. prefix pre urls \<and>
     (case try_gateways e urls (s, reqs) of
        Returned (b, s', reqs') \<Rightarrow> reqs' = reqs @ pre
      | Pending (s', reqs') \<Rightarrow> reqs' = reqs @ pre)"
proof (induction urls arbitrary: reqs)
  case Nil
  then show ?case by simp
next
  case (Cons url urls)
  show ?case
  proof (cases "gateway_attempt e url")
    case Failed
    from Cons.IH [of "reqs @ [url]"] obtain pre where
      "prefix pre urls" and
      "case try_gateways e urls (s, reqs @ [url]) of
         Returned (b, s', reqs') \<Rightarrow> reqs' = (reqs @ [url]) @ pre
       | Pending (s', reqs') \<Rightarrow> reqs' = (reqs @ [url]) @ pre"
      by blast
    with Failed show ?thesis
      by (intro exI [of _ "url # pre"]) (simp split: run.splits prod.splits)
  next
    case Stuck
    then show ?thesis
      by (intro exI [of _ "[url]"]) simp
  next
    case (Got d)
    then show ?thesis
      by (intro exI [of _ "[url]"]) simp
  qed
qed

text \<open>The handler waits for ever only on a body that never ends.\<close>

lemma server_attempt_Stuck_iff:
  "server_attempt e url = Stuck \<longleftrightarrow>
     (\<exists>t r. net e url = Responds t r \<and> t < 8000 \<and> resp_ok r \<and> resp_body r = Hangs)"
  by (auto simp: server_attempt_def fetchWithTimeout_def Let_def read_json_def
      split: outcome.splits awaited.splits option.splits if_splits)

lemma server_attempt_Got:
  "server_attempt e url = Got (ct, d) \<Longrightarrow>
   \<exists>t r. net e url = Responds t r \<and> t < 8000 \<and> resp_ok r \<and> ct = content_type_of r"
  by (auto simp: server_attempt_def fetchWithTimeout_def Let_def
      split: outcome.splits awaited.splits if_splits)

lemma GET_loop_not_Pending:
  assumes "\<forall>u \<in> set urls. server_attempt e u \<noteq> Stuck"
  shows "GET_loop e urls reqs \<noteq> Pending p"
  using assms
proof (induction urls arbitrary: reqs)
  case Nil
  show ?case by simp
next
  case (Cons url urls)
  then show ?case
    by (cases "server_attempt e url") (auto split: prod.splits)
qed

lemma GET_loop_some:
  "GET_loop e urls reqs = Returned (Some r, reqs') \<Longrightarrow>
   \<exists>before url ct d.
     prefix (before @ [url]) urls \<and> reqs' = reqs @ before @ [url]
     \<and> (\<forall>u \<in> set before. server_attempt e u = Failed)
     \<and> server_attempt e url = Got (ct, d)
     \<and> r = \<lparr>reply_status = 200,
             reply_json = JObj [(''ok'', JBool True), (''resolvedUrl'', JStr url),
                                (''contentType'', JStr ct), (''data'', d)]\<rparr>"
proof (induction urls arbitrary: reqs)
  case Nil
  then show ?case by simp
next
  case (Cons url urls)
  show ?case
  proof (cases "server_attempt e url")
    case Failed
    with Cons.prems have "GET_loop e urls (reqs @ [url]) = Returned (Some r, reqs')"
      by simp
    from Cons.IH [OF this] obtain before u ct d where
      "prefix (before @ [u]) urls" "reqs' = (reqs @ [url]) @ before @ [u]"
      "\<forall>x \<in> set before. server_attempt e x = Failed" "server_attempt e u = Got (ct, d)"
      "r = \<lparr>reply_status = 200,
             reply_json = JObj [(''ok'', JBool True), (''resolvedUrl'', JStr u),
                                (''contentType'', JStr ct), (''data'', d)]\<rparr>"
      by blast
    with Failed show ?thesis
      by (intro exI [of _ "url # before"] exI [of _ u] exI [of _ ct] exI [of _ d]) simp
  next
    case Stuck
    with Cons.prems show ?thesis by simp
  next
    case (Got cd)
    obtain ct d where cd: "cd = (ct, d)" by (cases cd)
    with Got Cons.prems show ?thesis
      by (intro exI [of _ "[]"] exI [of _ url] exI [of _ ct] exI [of _ d]) auto
  qed
qed

lemma GET_not_Pending:
  assumes "\<forall>u. server_attempt e u \<noteq> Stuck"
  shows "GET e src_param \<noteq> Pending p"
  using assms GET_loop_not_Pending [of _ e]
  by (auto simp: GET_def Let_def split: run.splits prod.splits option.splits)

lemma GET_gateway_up:
  "GET gateway_up (Some ''ipfs://QmX'') =
     Returned (\<lparr>reply_status = 200,
                reply_json = JObj [(''ok'', JBool True),
                                   (''resolvedUrl'', JStr ''https://ipfs.io/ipfs/QmX''),
                                   (''contentType'', JStr ''application/json''),
                                   (''data'', JObj [(''name'', JStr ''BSc Physics'')])]\<rparr>,
               [''https://cloudflare-ipfs.com/ipfs/QmX'', ''https://ipfs.io/ipfs/QmX''])"
  by (simp add: GET_def normalize_link_def string_eval buildCandidates_def split_pointer_def
      pathGateways_def subdomainGateways_def server_attempt_def fetchWithTimeout_def
      gateway_up_def content_type_of_def json_flavoured_def read_json_def Let_def)

text \<open>When \<^verbatim>\<open>fetchIpfs\<close> stays pending: an attempt is stuck when its request never
  settles or the body of its response never ends, and the run is pending exactly
  when the proxy attempt is stuck, or it failed and a candidate is stuck after
  failed ones.\<close>

lemma try_gateways_stuck:
  assumes "\<forall>x \<in> set before. gateway_attempt e x = Failed" and "gateway_attempt e u = Stuck"
  shows "try_gateways e (before @ u # after) (s, reqs) = Pending (s, reqs @ before @ [u])"
  using assms by (induction before arbitrary: reqs) simp_all

lemma gateway_attempt_Stuck_iff:
  "gateway_attempt e url = Stuck \<longleftrightarrow>
     net e url = Never
     \<or> (\<exists>t r. net e url = Responds t r \<and> resp_ok r \<and> resp_body r = Hangs)"
  by (auto simp: gateway_attempt_def fetch_def read_json_def
      split: outcome.splits awaited.splits option.splits if_splits)

lemma proxy_attempt_Stuck_iff:
  "proxy_attempt e url = Stuck \<longleftrightarrow>
     net e url = Never
     \<or> (\<exists>t r. net e url = Responds t r \<and> resp_ok r \<and> resp_body r = Hangs)"
  by (auto simp: proxy_attempt_def fetch_def read_json_def
      split: outcome.splits awaited.splits option.splits if_splits)

lemma fetchIpfs_pending_at_gateway:
  assumes "normalize_link rawIpfs = n" and "n \<noteq> []"
    and "proxy_attempt e (proxyUrl n) = Failed"
    and "clientCandidates n = before @ u # after"
    and "\<forall>x \<in> set before. gateway_attempt e x = Failed"
    and "gateway_attempt e u = Stuck"
  shows "fetchIpfs e s rawIpfs =
           Pending (s\<lparr>ipfsLoading := True, ipfsError := None, ipfsData := JNull,
                      ipfsResolvedUrl := JNull, ipfsFallbackUrls := clientCandidates n\<rparr>,
                    proxyUrl n # before @ [u])"
proof -
  from assms(1,2) have "rawIpfs \<noteq> []" by auto
  moreover have "try_gateways e (clientCandidates n) (s', [proxyUrl n]) =
      Pending (s', [proxyUrl n] @ before @ [u])" for s'
    unfolding assms(4) using assms(5,6) by (rule try_gateways_stuck)
  ultimately show ?thesis
    using assms(1,2,3) by (simp add: fetchIpfs_def Let_def)
qed

lemma fetchIpfs_pending_at_proxy:
  assumes "normalize_link rawIpfs = n" and "n \<noteq> []"
    and "proxy_attempt e (proxyUrl n) = Stuck"
  shows "fetchIpfs e s rawIpfs =
           Pending (s\<lparr>ipfsLoading := True, ipfsError := None, ipfsData := JNull,
                      ipfsResolvedUrl := JNull\<rparr>, [proxyUrl n])"
proof -
  from assms(1,2) have "rawIpfs \<noteq> []" by auto
  with assms show ?thesis by (simp add: fetchIpfs_def)
qed

lemma try_gateways_Pending_iff:
  "(\<exists>p. try_gateways e urls (s, reqs) = Pending p) \<longleftrightarrow>
     (\<exists>before u after. urls = before @ u # after
        \<and> (\<forall>x \<in> set before. gateway_attempt e x = Failed) \<and> gateway_attempt e u = Stuck)"
proof (induction urls arbitrary: reqs)
  case Nil
  show ?case by simp
next
  case (Cons url urls)
  show ?case
  proof (cases "gateway_attempt e url")
    case Failed
    have "(\<exists>before u after. url # urls = before @ u # after
        \<and> (\<forall>x \<in> set before. gateway_attempt e x = Failed) \<and> gateway_attempt e u = Stuck)
      \<longleftrightarrow> (\<exists>before u after. urls = before @ u # after
        \<and> (\<forall>x \<in> set before. gateway_attempt e x = Failed) \<and> gateway_attempt e u = Stuck)"
      (is "?L \<longleftrightarrow> ?R")
    proof
      assume ?L
      then obtain before u after where h: "url # urls = before @ u # after"
        "\<forall>x \<in> set before. gateway_attempt e x = Failed" "gateway_attempt e u = Stuck"
        by blast
      with Failed obtain b' where "before = url # b'"
        by (cases before) auto
      with h show ?R by auto
    next
      assume ?R
      then obtain before u after where h: "urls = before @ u # after"
        "\<forall>x \<in> set before. gateway_attempt e x = Failed" "gateway_attempt e u = Stuck"
        by blast
      with Failed show ?L
        by (intro exI [of _ "url # before"] exI [of _ u] exI [of _ after]) simp
    qed
    with Failed Cons.IH [of "reqs @ [url]"] show ?thesis by simp
  next
    case Stuck
    then have "\<exists>before u after. url # urls = before @ u # after
        \<and> (\<forall>x \<in> set before. gateway_attempt e x = Failed) \<and> gateway_attempt e u = Stuck"
      by (intro exI [of _ "[]"] exI [of _ url] exI [of _ urls]) simp
    with Stuck show ?thesis by simp
  next
    case (Got d)
    have "\<not> (\<exists>before u after. url # urls = before @ u # after
        \<and> (\<forall>x \<in> set before. gateway_attempt e x = Failed) \<and> gateway_attempt e u = Stuck)"
    proof
      assume "\<exists>before u after. url # urls = before @ u # after
        \<and> (\<forall>x \<in> set before. gateway_attempt e x = Failed) \<and> gateway_attempt e u = Stuck"
      then obtain before u after where h: "url # urls = before @ u # after"
        "\<forall>x \<in> set before. gateway_attempt e x = Failed" "gateway_attempt e u = Stuck"
        by blast
      with Got show False by (cases before) auto
    qed
    with Got show ?thesis by simp
  qed
qed


lemma fetchIpfs_Pending_iff:
  assumes "normalize_link rawIpfs = n" and "n \<noteq> []"
  shows "(\<exists>p. fetchIpfs e s rawIpfs = Pending p) \<longleftrightarrow>
           proxy_attempt e (proxyUrl n) = Stuck
           \<or> proxy_attempt e (proxyUrl n) = Failed
             \<and> (\<exists>before u after. clientCandidates n = before @ u # after
                   \<and> (\<forall>x \<in> set before. gateway_attempt e x = Failed)
                   \<and> gateway_attempt e u = Stuck)"
proof -
  from assms have raw: "rawIpfs \<noteq> []" by auto
  show ?thesis
  proof (cases "proxy_attempt e (proxyUrl n)")
    case Failed
    let ?s = "s\<lparr>ipfsLoading := True, ipfsError := None, ipfsData := JNull,
                ipfsResolvedUrl := JNull, ipfsFallbackUrls := clientCandidates n\<rparr>"
    from Failed assms raw
    have "(\<exists>p. fetchIpfs e s rawIpfs = Pending p) \<longleftrightarrow>
          (\<exists>p. try_gateways e (clientCandidates n) (?s, [proxyUrl n]) = Pending p)"
      by (auto simp: fetchIpfs_def Let_def split: run.splits prod.splits)
    also have "\<dots> \<longleftrightarrow>
          (\<exists>before u after. clientCandidates n = before @ u # after
             \<and> (\<forall>x \<in> set before. gateway_attempt e x = Failed)
             \<and> gateway_attempt e u = Stuck)"
      by (rule try_gateways_Pending_iff)
    finally show ?thesis
      using Failed by (metis attempt.distinct(1))
  next
    case Stuck
    with assms raw show ?thesis by (simp add: fetchIpfs_def)
  next
    case (Got payload)
    with assms raw show ?thesis by (simp add: fetchIpfs_def)
  qed
qed

lemma clientCandidates_QmX2:
  "clientCandidates ''QmX'' =
     [''https://cloudflare-ipfs.com/ipfs/QmX''] @ ''https://ipfs.io/ipfs/QmX'' #
       [''https://nftstorage.link/ipfs/QmX'', ''https://dweb.link/ipfs/QmX'',
        ''https://gateway.pinata.cloud/ipfs/QmX'']"
  by (simp add: clientCandidates_QmX)

subsection \<open>Fetch Pipeline\<close>

text \<open>
  Claim C1. When the request to the same-origin proxy answers with HTTP ok and an
  envelope whose \<^verbatim>\<open>ok\<close> field is true (truthy), \<^verbatim>\<open>fetchIpfs\<close> stores the envelope's
  \<^verbatim>\<open>data\<close> and its \<^verbatim>\<open>resolvedUrl\<close> (null when it has none) and returns, having
  requested the proxy URL and nothing else. In every call that reaches the proxy
  step, whatever the network does, the proxy URL is the first request and is never
  requested again: what follows it are candidate gateway URLs.
\<close>

theorem proxy_success_is_final:
  assumes "normalize_link rawIpfs = n" and "n \<noteq> []"
  shows "(net e (proxyUrl n) = Responds t pr \<longrightarrow> resp_ok pr \<longrightarrow> read_json e pr = Returns payload \<longrightarrow>
            truthy (get_prop payload ''ok'') \<longrightarrow>
            fetchIpfs e s rawIpfs =
              Returned (s\<lparr>ipfsLoading := False, ipfsError := None,
                          ipfsData := get_prop payload ''data'',
                          ipfsResolvedUrl := js_or (get_prop payload ''resolvedUrl'') JNull\<rparr>,
                        [proxyUrl n]))
       \<and> (\<exists>rest. requests_made (fetchIpfs e s rawIpfs) = proxyUrl n # rest
              \<and> prefix rest (clientCandidates n) \<and> proxyUrl n \<notin> set rest)"
proof (intro conjI impI)
  from assms have raw: "rawIpfs \<noteq> []" by auto
  {
    assume "net e (proxyUrl n) = Responds t pr" "resp_ok pr" "read_json e pr = Returns payload"
      "truthy (get_prop payload ''ok'')"
    then have "proxy_attempt e (proxyUrl n) = Got payload"
      by (simp add: proxy_attempt_def fetch_def)
    with assms raw show "fetchIpfs e s rawIpfs =
              Returned (s\<lparr>ipfsLoading := False, ipfsError := None,
                          ipfsData := get_prop payload ''data'',
                          ipfsResolvedUrl := js_or (get_prop payload ''resolvedUrl'') JNull\<rparr>,
                        [proxyUrl n])"
      by (simp add: fetchIpfs_def)
  }
  show "\<exists>rest. requests_made (fetchIpfs e s rawIpfs) = proxyUrl n # rest
              \<and> prefix rest (clientCandidates n) \<and> proxyUrl n \<notin> set rest"
  proof (cases "proxy_attempt e (proxyUrl n)")
    case Failed
    let ?s = "s\<lparr>ipfsLoading := True, ipfsError := None, ipfsData := JNull,
                ipfsResolvedUrl := JNull, ipfsFallbackUrls := clientCandidates n\<rparr>"
    from try_gateways_requests [where urls = "clientCandidates n" and e = e and s = ?s and reqs = "[proxyUrl n]"]
    obtain pre where pre: "prefix pre (clientCandidates n)"
      and "case try_gateways e (clientCandidates n) (?s, [proxyUrl n]) of
             Returned (b, s', reqs') \<Rightarrow> reqs' = [proxyUrl n] @ pre
           | Pending (s', reqs') \<Rightarrow> reqs' = [proxyUrl n] @ pre"
      by blast
    with Failed assms raw have "requests_made (fetchIpfs e s rawIpfs) = proxyUrl n # pre"
      by (simp add: fetchIpfs_def requests_made_def Let_def split: run.splits prod.splits)
    moreover from pre have "proxyUrl n \<notin> set pre"
      using proxyUrl_not_candidate [of n n] set_mono_prefix by blast
    ultimately show ?thesis using pre by blast
  next
    case Stuck
    with assms raw show ?thesis
      by (simp add: fetchIpfs_def requests_made_def)
  next
    case (Got payload)
    with assms raw show ?thesis
      by (simp add: fetchIpfs_def requests_made_def)
  qed
qed

theorem proxy_success_is_final_witness:
  "fetchIpfs proxy_up initial_ipfs_state ''QmX'' =
     Returned (initial_ipfs_state\<lparr>ipfsData := JObj [(''name'', JStr ''BSc Physics'')],
                                  ipfsResolvedUrl := JStr ''https://ipfs.io/ipfs/QmX''\<rparr>,
               [''/api/ipfs?src=QmX''])
   \<and> requests_made (fetchIpfs proxy_up initial_ipfs_state ''QmX'') = [''/api/ipfs?src=QmX'']"
proof -
  let ?pr = "\<lparr>resp_ok = True, resp_content_type = Some ''application/json'',
              resp_body = Returns ''envelope''\<rparr>"
  have net: "net proxy_up (proxyUrl ''QmX'') = Responds 120 ?pr"
    by (simp add: proxy_up_def proxyUrl_QmX)
  have body: "read_json proxy_up ?pr = Returns example_envelope"
    by (simp add: read_json_def proxy_up_def)
  have ok: "truthy (get_prop example_envelope ''ok'')"
    by (simp add: example_envelope_def)
  from proxy_success_is_final [OF normalize_QmX, of proxy_up 120 ?pr example_envelope
      initial_ipfs_state] net body ok
  have "fetchIpfs proxy_up initial_ipfs_state ''QmX'' =
      Returned (initial_ipfs_state\<lparr>ipfsLoading := False, ipfsError := None,
                  ipfsData := get_prop example_envelope ''data'',
                  ipfsResolvedUrl := js_or (get_prop example_envelope ''resolvedUrl'') JNull\<rparr>,
                [proxyUrl ''QmX''])"
    by simp
  then show ?thesis
    by (simp add: proxyUrl_QmX example_envelope_def initial_ipfs_state_def js_or_def
        requests_made_def)
qed



subsection \<open>Timeouts\<close>

text \<open>
  Claim C6 as stated fails: the requests of the page's \<^verbatim>\<open>fetchIpfs\<close> carry no timeout.
  With a network that never answers, the request to the proxy never settles and
  \<^verbatim>\<open>fetchIpfs\<close> does not return; the page keeps \<^verbatim>\<open>ipfsLoading\<close> true.
\<close>

theorem client_request_hangs_counterexample:
  "fetchIpfs network_silent initial_ipfs_state ''QmX'' =
     Pending (initial_ipfs_state\<lparr>ipfsLoading := True\<rparr>, [''/api/ipfs?src=QmX''])
   \<and> \<not> (\<exists>r. fetchIpfs network_silent initial_ipfs_state ''QmX'' = Returned r)"
  by (simp add: fetchIpfs_def normalize_QmX proxyUrl_QmX proxy_attempt_def fetch_def
      network_silent_def initial_ipfs_state_def)

text \<open>
  Claim C6, amended. Every gateway request of the proxy endpoint's \<^verbatim>\<open>GET\<close> handler
  goes through \<^verbatim>\<open>fetchWithTimeout\<close> with a timer of 8000 ms that aborts it: a request
  with no response by then, or with none ever, is a failed candidate. The timer is
  cleared when the response arrives, so the handler is left waiting by nothing but
  a response body that never ends. The requests of the page's \<^verbatim>\<open>fetchIpfs\<close> (to the
  proxy and to each gateway) have no timeout: when the request to the proxy never
  settles, or when the proxy attempt has failed and the request to a candidate
  never settles after the candidates before it have failed, \<^verbatim>\<open>fetchIpfs\<close> stays pending
  after that request, with \<^verbatim>\<open>ipfsLoading\<close> true and no error set; and it stays pending
  in no other case than a stuck attempt of one of these two kinds.
\<close>

theorem timeout_only_in_proxy_endpoint:
  "fetchWithTimeout e url ms \<noteq> Hangs
   \<and> (net e url = Never \<longrightarrow> server_attempt e url = Failed)
   \<and> (net e url = Responds t resp \<longrightarrow> 8000 \<le> t \<longrightarrow> server_attempt e url = Failed)
   \<and> (server_attempt e url = Stuck \<longleftrightarrow>
        (\<exists>t r. net e url = Responds t r \<and> t < 8000 \<and> resp_ok r \<and> resp_body r = Hangs))
   \<and> ((\<forall>u t r. net e u = Responds t r \<longrightarrow> resp_body r \<noteq> Hangs) \<longrightarrow>
        (\<forall>p. GET e src_param \<noteq> Pending p))
   \<and> (net e url = Never \<longrightarrow> proxy_attempt e url = Stuck \<and> gateway_attempt e url = Stuck)
   \<and> (normalize_link rawIpfs = n \<longrightarrow> n \<noteq> [] \<longrightarrow> net e (proxyUrl n) = Never \<longrightarrow>
        fetchIpfs e s rawIpfs =
          Pending (s\<lparr>ipfsLoading := True, ipfsError := None, ipfsData := JNull,
                     ipfsResolvedUrl := JNull\<rparr>, [proxyUrl n]))
   \<and> (normalize_link rawIpfs = n \<longrightarrow> n \<noteq> [] \<longrightarrow> proxy_attempt e (proxyUrl n) = Failed \<longrightarrow>
        clientCandidates n = before @ u # after \<longrightarrow>
        (\<forall>x \<in> set before. gateway_attempt e x = Failed) \<longrightarrow>
        gateway_attempt e u = Stuck \<longrightarrow>
        fetchIpfs e s rawIpfs =
          Pending (s\<lparr>ipfsLoading := True, ipfsError := None, ipfsData := JNull,
                     ipfsResolvedUrl := JNull, ipfsFallbackUrls := clientCandidates n\<rparr>,
                   proxyUrl n # before @ [u]))
   \<and> (normalize_link rawIpfs = n \<longrightarrow> n \<noteq> [] \<longrightarrow>
        ((\<exists>p. fetchIpfs e s rawIpfs = Pending p) \<longleftrightarrow>
           proxy_attempt e (proxyUrl n) = Stuck
           \<or> proxy_attempt e (proxyUrl n) = Failed
             \<and> (\<exists>b c a. clientCandidates n = b @ c # a
                   \<and> (\<forall>x \<in> set b. gateway_attempt e x = Failed)
                   \<and> gateway_attempt e c = Stuck)))
   \<and> (net e url = Never \<longrightarrow>
        try_gateways e (url # urls) (s, reqs) = Pending (s, reqs @ [url]))"
proof (intro conjI impI allI)
  show "fetchWithTimeout e url ms \<noteq> Hangs"
    by (simp add: fetchWithTimeout_def split: outcome.splits)
next
  assume "net e url = Never"
  then show "server_attempt e url = Failed"
    by (simp add: server_attempt_def fetchWithTimeout_def)
next
  assume "net e url = Responds t resp" "8000 \<le> t"
  then show "server_attempt e url = Failed"
    by (simp add: server_attempt_def fetchWithTimeout_def)
next
  show "server_attempt e url = Stuck \<longleftrightarrow>
        (\<exists>t r. net e url = Responds t r \<and> t < 8000 \<and> resp_ok r \<and> resp_body r = Hangs)"
    by (rule server_attempt_Stuck_iff)
next
  fix p
  assume "\<forall>u t r. net e u = Responds t r \<longrightarrow> resp_body r \<noteq> Hangs"
  then have "\<forall>u. server_attempt e u \<noteq> Stuck"
    by (simp add: server_attempt_Stuck_iff)
  then show "GET e src_param \<noteq> Pending p"
    by (rule GET_not_Pending)
next
  assume "net e url = Never"
  then show "proxy_attempt e url = Stuck" "gateway_attempt e url = Stuck"
    by (simp_all add: proxy_attempt_Stuck_iff gateway_attempt_Stuck_iff)
next
  assume "normalize_link rawIpfs = n" "n \<noteq> []" "net e (proxyUrl n) = Never"
  then show "fetchIpfs e s rawIpfs =
          Pending (s\<lparr>ipfsLoading := True, ipfsError := None, ipfsData := JNull,
                     ipfsResolvedUrl := JNull\<rparr>, [proxyUrl n])"
    by (intro fetchIpfs_pending_at_proxy) (simp_all add: proxy_attempt_Stuck_iff)
next
  assume "normalize_link rawIpfs = n" "n \<noteq> []" "proxy_attempt e (proxyUrl n) = Failed"
    "clientCandidates n = before @ u # after"
    "\<forall>x \<in> set before. gateway_attempt e x = Failed" "gateway_attempt e u = Stuck"
  then show "fetchIpfs e s rawIpfs =
          Pending (s\<lparr>ipfsLoading := True, ipfsError := None, ipfsData := JNull,
                     ipfsResolvedUrl := JNull, ipfsFallbackUrls := clientCandidates n\<rparr>,
                   proxyUrl n # before @ [u])"
    by (rule fetchIpfs_pending_at_gateway)
next
  assume "normalize_link rawIpfs = n" "n \<noteq> []"
  then show "(\<exists>p. fetchIpfs e s rawIpfs = Pending p) \<longleftrightarrow>
           proxy_attempt e (proxyUrl n) = Stuck
           \<or> proxy_attempt e (proxyUrl n) = Failed
             \<and> (\<exists>b c a. clientCandidates n = b @ c # a
                   \<and> (\<forall>x \<in> set b. gateway_attempt e x = Failed)
                   \<and> gateway_attempt e c = Stuck)"
    by (rule fetchIpfs_Pending_iff)
next
  assume "net e url = Never"
  then have "gateway_attempt e url = Stuck"
    by (simp add: gateway_attempt_Stuck_iff)
  then show "try_gateways e (url # urls) (s, reqs) = Pending (s, reqs @ [url])"
    by simp
qed

theorem timeout_only_in_proxy_endpoint_witness:
  "GET network_silent (Some ''QmX'') =
     Returned (\<lparr>reply_status = 502,
                reply_json =
                  JObj [(''ok'', JBool False),
                        (''error'',
                         JStr ''All public gateways failed (timeout/CORS/content missing).''),
                        (''candidates'', JArr (map JStr (buildCandidates ''QmX'')))]\<rparr>,
               buildCandidates ''QmX'')
   \<and> (\<forall>p. GET gateway_up (Some ''QmX'') \<noteq> Pending p)
   \<and> GET gateway_stalls (Some ''QmX'') = Pending [''https://cloudflare-ipfs.com/ipfs/QmX'']
   \<and> fetchIpfs network_silent initial_ipfs_state ''QmX'' =
       Pending (initial_ipfs_state\<lparr>ipfsLoading := True\<rparr>, [''/api/ipfs?src=QmX''])
   \<and> fetchIpfs gateway_silent initial_ipfs_state ''QmX'' =
       Pending (initial_ipfs_state\<lparr>ipfsLoading := True,
                                    ipfsFallbackUrls := clientCandidates ''QmX''\<rparr>,
                [''/api/ipfs?src=QmX'', ''https://cloudflare-ipfs.com/ipfs/QmX'',
                 ''https://ipfs.io/ipfs/QmX''])"
proof -
  let ?first = "''https://cloudflare-ipfs.com/ipfs/QmX''"
  let ?second = "''https://ipfs.io/ipfs/QmX''"
  let ?others = "[''https://nftstorage.link/ipfs/QmX'', ''https://dweb.link/ipfs/QmX'',
                  ''https://gateway.pinata.cloud/ipfs/QmX'']"
  let ?stalled = "\<lparr>resp_ok = True, resp_content_type = Some ''application/json'',
                   resp_body = Hangs\<rparr>"
  note silent_facts = timeout_only_in_proxy_endpoint [where e = network_silent
      and ms = 8000 and t = 0 and resp = ?stalled and src_param = "Some ''QmX''"
      and rawIpfs = "''QmX''" and n = "''QmX''" and s = initial_ipfs_state
      and before = "[?first]" and u = ?second and after = ?others
      and urls = "[]" and reqs = "[]"]
  have never: "net network_silent u = Never" for u
    by (simp add: network_silent_def)
  have failed: "server_attempt network_silent u = Failed" for u
    using silent_facts [of u] never by blast
  have "GET_loop network_silent urls reqs = Returned (None, reqs @ urls)" for urls reqs
    by (induction urls arbitrary: reqs) (simp_all add: failed)
  then have silent: "GET network_silent (Some ''QmX'') =
       Returned (\<lparr>reply_status = 502,
                  reply_json =
                    JObj [(''ok'', JBool False),
                          (''error'',
                           JStr ''All public gateways failed (timeout/CORS/content missing).''),
                          (''candidates'', JArr (map JStr (buildCandidates ''QmX'')))]\<rparr>,
                 buildCandidates ''QmX'')"
    by (simp add: GET_def normalize_QmX Let_def)
  have settle: "\<forall>u t r. net gateway_up u = Responds t r \<longrightarrow> resp_body r \<noteq> Hangs"
    by (auto simp: gateway_up_def split: if_splits)
  have up: "\<forall>p. GET gateway_up (Some ''QmX'') \<noteq> Pending p"
    using timeout_only_in_proxy_endpoint [where e = gateway_up and url = ?first
      and ms = 8000 and t = 0 and resp = ?stalled and src_param = "Some ''QmX''"
      and rawIpfs = "''QmX''" and n = "''QmX''" and s = initial_ipfs_state
      and before = "[?first]" and u = ?second and after = ?others
      and urls = "[]" and reqs = "[]"] settle
    by blast
  have answer: "net gateway_stalls ?first = Responds 300 ?stalled"
    by (simp add: gateway_stalls_def)
  have "server_attempt gateway_stalls ?first = Stuck"
    using timeout_only_in_proxy_endpoint [where e = gateway_stalls and url = ?first
      and ms = 8000 and t = 0 and resp = ?stalled and src_param = "Some ''QmX''"
      and rawIpfs = "''QmX''" and n = "''QmX''" and s = initial_ipfs_state
      and before = "[?first]" and u = ?second and after = ?others
      and urls = "[]" and reqs = "[]"] answer
    by auto
  then have stalls: "GET gateway_stalls (Some ''QmX'') = Pending [?first]"
    by (simp add: GET_def normalize_QmX buildCandidates_QmX)
  have "fetchIpfs network_silent initial_ipfs_state ''QmX'' =
          Pending (initial_ipfs_state\<lparr>ipfsLoading := True, ipfsError := None, ipfsData := JNull,
                     ipfsResolvedUrl := JNull\<rparr>, [proxyUrl ''QmX''])"
    using silent_facts [of "proxyUrl ''QmX''"] never normalize_QmX
    by blast
  then have pending: "fetchIpfs network_silent initial_ipfs_state ''QmX'' =
       Pending (initial_ipfs_state\<lparr>ipfsLoading := True\<rparr>, [''/api/ipfs?src=QmX''])"
    by (simp add: proxyUrl_QmX initial_ipfs_state_def)
  note gateway_facts = timeout_only_in_proxy_endpoint [where e = gateway_silent
      and url = ?second and ms = 8000 and t = 0 and resp = ?stalled
      and src_param = "Some ''QmX''" and rawIpfs = "''QmX''" and n = "''QmX''"
      and s = initial_ipfs_state and before = "[?first]" and u = ?second and after = ?others
      and urls = "[]" and reqs = "[]"]
  have proxy_failed: "proxy_attempt gateway_silent (proxyUrl ''QmX'') = Failed"
    by (simp add: proxy_attempt_def fetch_def gateway_silent_def proxyUrl_QmX)
  have first_failed: "\<forall>x \<in> set [?first]. gateway_attempt gateway_silent x = Failed"
    by (simp add: gateway_attempt_def fetch_def gateway_silent_def)
  have "net gateway_silent ?second = Never"
    by (simp add: gateway_silent_def)
  with gateway_facts have second_stuck: "gateway_attempt gateway_silent ?second = Stuck"
    by blast
  have "fetchIpfs gateway_silent initial_ipfs_state ''QmX'' =
          Pending (initial_ipfs_state\<lparr>ipfsLoading := True, ipfsError := None, ipfsData := JNull,
                     ipfsResolvedUrl := JNull, ipfsFallbackUrls := clientCandidates ''QmX''\<rparr>,
                   proxyUrl ''QmX'' # [?first] @ [?second])"
    using gateway_facts normalize_QmX proxy_failed clientCandidates_QmX2 first_failed second_stuck
    by blast
  then have at_gateway: "fetchIpfs gateway_silent initial_ipfs_state ''QmX'' =
       Pending (initial_ipfs_state\<lparr>ipfsLoading := True,
                                    ipfsFallbackUrls := clientCandidates ''QmX''\<rparr>,
                [''/api/ipfs?src=QmX'', ''https://cloudflare-ipfs.com/ipfs/QmX'',
                 ''https://ipfs.io/ipfs/QmX''])"
    by (simp add: proxyUrl_QmX initial_ipfs_state_def)
  from silent up stalls pending at_gateway show ?thesis
    by blast
qed

subsection \<open>Proxy endpoint\<close>

text \<open>
  Claim C10. When the \<^verbatim>\<open>src\<close> parameter is absent or normalizes to the empty string,
  \<^verbatim>\<open>GET\<close> replies with status 400 and the envelope \<^verbatim>\<open>{ok: false, error: ...}\<close>, without
  a request to any gateway. A reply whose envelope has \<^verbatim>\<open>ok: true\<close> has status 200 and
  comes only after a gateway answered ok within the timeout: that gateway's URL is
  the last request and the envelope's \<^verbatim>\<open>resolvedUrl\<close>, and every request before it
  failed.
\<close>

theorem GET_bad_request_or_gateway_success:
  "GET e None =
     Returned (\<lparr>reply_status = 400,
                reply_json = JObj [(''ok'', JBool False),
                                   (''error'', JStr ''Missing or invalid src'')]\<rparr>, [])
   \<and> (normalize_link v = [] \<longrightarrow>
        GET e (Some v) =
          Returned (\<lparr>reply_status = 400,
                     reply_json = JObj [(''ok'', JBool False),
                                        (''error'', JStr ''Missing or invalid src'')]\<rparr>, []))
   \<and> (GET e (Some v) = Returned (r, reqs) \<longrightarrow> get_prop (reply_json r) ''ok'' = JBool True \<longrightarrow>
        reply_status r = 200
        \<and> reqs \<noteq> []
        \<and> prefix reqs (buildCandidates (normalize_link v))
        \<and> (\<forall>u \<in> set (butlast reqs). server_attempt e u = Failed)
        \<and> (\<exists>t resp. net e (last reqs) = Responds t resp \<and> t < 8000 \<and> resp_ok resp)
        \<and> get_prop (reply_json r) ''resolvedUrl'' = JStr (last reqs))"
proof (intro conjI impI)
  show "GET e None =
     Returned (\<lparr>reply_status = 400,
                reply_json = JObj [(''ok'', JBool False),
                                   (''error'', JStr ''Missing or invalid src'')]\<rparr>, [])"
    by (simp add: GET_def)
next
  assume "normalize_link v = []"
  then show "GET e (Some v) =
          Returned (\<lparr>reply_status = 400,
                     reply_json = JObj [(''ok'', JBool False),
                                        (''error'', JStr ''Missing or invalid src'')]\<rparr>, [])"
    by (simp add: GET_def)
next
  assume ret: "GET e (Some v) = Returned (r, reqs)"
    and ok: "get_prop (reply_json r) ''ok'' = JBool True"
  let ?urls = "buildCandidates (normalize_link v)"
  from ret ok have src: "normalize_link v \<noteq> []"
    by (auto simp: GET_def)
  from ret ok src have loop: "GET_loop e ?urls [] = Returned (Some r, reqs)"
    by (auto simp: GET_def Let_def split: run.splits prod.splits option.splits)
  from GET_loop_some [OF loop] obtain before url ct d where
    pre: "prefix (before @ [url]) ?urls" and reqs: "reqs = before @ [url]"
    and failed: "\<forall>u \<in> set before. server_attempt e u = Failed"
    and got: "server_attempt e url = Got (ct, d)"
    and r: "r = \<lparr>reply_status = 200,
             reply_json = JObj [(''ok'', JBool True), (''resolvedUrl'', JStr url),
                                (''contentType'', JStr ct), (''data'', d)]\<rparr>"
    by auto
  from server_attempt_Got [OF got] obtain t resp where
    "net e url = Responds t resp" "t < 8000" "resp_ok resp"
    by blast
  with pre reqs failed r
  show "reply_status r = 200" "reqs \<noteq> []" "prefix reqs ?urls"
    "\<forall>u \<in> set (butlast reqs). server_attempt e u = Failed"
    "\<exists>t resp. net e (last reqs) = Responds t resp \<and> t < 8000 \<and> resp_ok resp"
    "get_prop (reply_json r) ''resolvedUrl'' = JStr (last reqs)"
    by auto
qed

theorem GET_bad_request_or_gateway_success_witness:
  "GET gateway_up (Some ''ipfs://'') =
     Returned (\<lparr>reply_status = 400,
                reply_json = JObj [(''ok'', JBool False),
                                   (''error'', JStr ''Missing or invalid src'')]\<rparr>, [])
   \<and> (\<exists>r reqs. GET gateway_up (Some ''ipfs://QmX'') = Returned (r, reqs)
         \<and> get_prop (reply_json r) ''ok'' = JBool True
         \<and> reply_status r = 200
         \<and> last reqs = ''https://ipfs.io/ipfs/QmX''
         \<and> (\<exists>t resp. net gateway_up (last reqs) = Responds t resp \<and> t < 8000 \<and> resp_ok resp))"
proof -
  have e: "normalize_link ''ipfs://'' = []"
    by (simp add: normalize_link_def string_eval)
  let ?r = "\<lparr>reply_status = 200,
             reply_json = JObj [(''ok'', JBool True),
                                (''resolvedUrl'', JStr ''https://ipfs.io/ipfs/QmX''),
                                (''contentType'', JStr ''application/json''),
                                (''data'', JObj [(''name'', JStr ''BSc Physics'')])]\<rparr>"
  let ?reqs = "[''https://cloudflare-ipfs.com/ipfs/QmX'', ''https://ipfs.io/ipfs/QmX'']"
  have ok: "get_prop (reply_json ?r) ''ok'' = JBool True"
    by simp
  from GET_bad_request_or_gateway_success [of gateway_up "''ipfs://''"] e
  have bad: "GET gateway_up (Some ''ipfs://'') =
     Returned (\<lparr>reply_status = 400,
                reply_json = JObj [(''ok'', JBool False),
                                   (''error'', JStr ''Missing or invalid src'')]\<rparr>, [])"
    by simp
  from GET_bad_request_or_gateway_success [of gateway_up "''ipfs://QmX''" ?r ?reqs]
    GET_gateway_up ok
  have "reply_status ?r = 200
      \<and> (\<exists>t resp. net gateway_up (last ?reqs) = Responds t resp \<and> t < 8000 \<and> resp_ok resp)"
    by blast
  with bad GET_gateway_up ok show ?thesis
    by (intro conjI exI [of _ ?r] exI [of _ ?reqs]) simp_all
qed

subsection \<open>Link Normalizer\<close>

lemma lower_code_literals:
  "lower_code CHR ''a'' = 97" "lower_code CHR ''r'' = 114" "lower_code CHR '':'' = 58"
  "lower_code CHR ''/'' = 47" "lower_code CHR ''h'' = 104" "lower_code CHR ''t'' = 116"
  "lower_code CHR ''p'' = 112" "lower_code CHR ''s'' = 115" "lower_code CHR ''i'' = 105"
  "lower_code CHR ''f'' = 102"
  by (simp_all add: lower_code_def)

lemma starts_ci_Cons:
  "starts_ci (p # ps) s \<longleftrightarrow> (\<exists>c cs. s = c # cs \<and> ci_eq p c \<and> starts_ci ps cs)"
  by (cases s) simp_all

lemma ci_eq_colon: "ci_eq CHR '':'' c \<longleftrightarrow> c = CHR '':''"
proof
  assume "ci_eq CHR '':'' c"
  then have "of_char c = (58 :: nat)"
    by (auto simp: ci_eq_def lower_code_def Let_def split: if_splits)
  then have "of_char c = (of_char CHR '':'' :: nat)" by simp
  then show "c = CHR '':''" by (simp only: of_char_eq_iff)
qed (simp add: ci_eq_def)

lemma ci_eq_slash: "ci_eq CHR ''/'' c \<longleftrightarrow> c = CHR ''/''"
proof
  assume "ci_eq CHR ''/'' c"
  then have "of_char c = (47 :: nat)"
    by (auto simp: ci_eq_def lower_code_def Let_def split: if_splits)
  then have "of_char c = (of_char CHR ''/'' :: nat)" by simp
  then show "c = CHR ''/''" by (simp only: of_char_eq_iff)
qed (simp add: ci_eq_def)

lemma ci_eq_letter_scheme:
  "ci_eq p c \<Longrightarrow> 97 \<le> lower_code p \<Longrightarrow> lower_code p \<le> 122 \<Longrightarrow> is_scheme_char c"
  by (auto simp: ci_eq_def lower_code_def is_scheme_char_def Let_def split: if_splits)

lemma not_scheme_colon: "\<not> is_scheme_char CHR '':''"
  by (simp add: is_scheme_char_def)

lemma ar_is_protocol: "starts_ci ''ar://'' x \<Longrightarrow> spec_protocol_prefix x"
  by (auto simp: starts_ci_Cons ci_eq_colon ci_eq_slash spec_protocol_prefix_def not_scheme_colon
      lower_code_literals dest!: ci_eq_letter_scheme)

lemma ipfs_is_protocol: "starts_ci ''ipfs://'' x \<Longrightarrow> spec_protocol_prefix x"
  by (auto simp: starts_ci_Cons ci_eq_colon ci_eq_slash spec_protocol_prefix_def not_scheme_colon
      lower_code_literals dest!: ci_eq_letter_scheme)

lemma http_is_protocol: "is_http x \<Longrightarrow> spec_protocol_prefix x"
  by (auto simp: is_http_def starts_ci_Cons ci_eq_colon ci_eq_slash spec_protocol_prefix_def not_scheme_colon
      lower_code_literals dest!: ci_eq_letter_scheme)

lemma first_char_facts:
  "starts_ci ''ipfs://'' l \<Longrightarrow> \<not> starts_ci ''ar://'' l \<and> \<not> is_http l"
  "starts_ci ''/ipfs/'' l \<Longrightarrow> \<not> starts_ci ''ar://'' l \<and> \<not> is_http l \<and> \<not> starts_ci ''ipfs://'' l"
  "starts_ci ''ipfs/'' l \<Longrightarrow>
     \<not> starts_ci ''ar://'' l \<and> \<not> is_http l \<and> \<not> starts_ci ''/ipfs/'' l"
  by (auto simp: is_http_def starts_ci_Cons ci_eq_def lower_code_literals)

lemma ipfs_slash_not_scheme: "starts_ci ''ipfs/'' l \<Longrightarrow> \<not> starts_ci ''ipfs://'' l"
  by (auto simp: starts_ci_Cons ci_eq_colon ci_eq_slash)

lemma strip_literals:
  "replace_prefix_ci ''ipfs://'' [] x = (if starts_ci ''ipfs://'' x then drop 7 x else x)"
  "replace_prefix_ci ''ipfs/'' [] x = (if starts_ci ''ipfs/'' x then drop 5 x else x)"
  "replace_prefix_ci ''ar://'' r x = (if starts_ci ''ar://'' x then r @ drop 5 x else x)"
  by (simp_all add: replace_prefix_ci_def eval_nat_numeral)

lemma strip_ipfs_scheme:
  assumes "starts_ci ''ipfs://'' (trim val)" and "bare_identifier (drop 7 (trim val))"
  shows "normalize_link val = drop 7 (trim val)"
  using assms first_char_facts(1) [OF assms(1)]
  by (auto simp: normalize_link_def Let_def strip_literals bare_identifier_def)

lemma strip_ipfs_path:
  assumes "starts_ci ''/ipfs/'' (trim val)" and "bare_identifier (drop 6 (trim val))"
  shows "normalize_link val = drop 6 (trim val)"
  using assms first_char_facts(2) [OF assms(1)]
  by (auto simp: normalize_link_def Let_def strip_literals bare_identifier_def)

lemma strip_ipfs_relative:
  assumes "starts_ci ''ipfs/'' (trim val)" and "bare_identifier (drop 5 (trim val))"
  shows "normalize_link val = drop 5 (trim val)"
  using assms first_char_facts(3) [OF assms(1)] ipfs_slash_not_scheme [OF assms(1)]
  by (auto simp: normalize_link_def Let_def strip_literals bare_identifier_def)

lemma bare_unchanged:
  assumes "bare_identifier (trim val)"
  shows "normalize_link val = trim val"
  using assms ar_is_protocol [of "trim val"] http_is_protocol [of "trim val"]
    ipfs_is_protocol [of "trim val"]
  by (auto simp: normalize_link_def Let_def strip_literals bare_identifier_def)

lemma starts_ci_append: "starts_ci pat p \<Longrightarrow> starts_ci pat (p @ x)"
  by (induction pat p rule: starts_ci.induct) auto

lemma matches_ci_starts: "matches_ci pat p \<Longrightarrow> starts_ci pat (p @ x)"
  by (simp add: matches_ci_def starts_ci_append)

lemma drop_matched: "length p = n \<Longrightarrow> drop n (p @ x) = x"
  by simp

lemma matches_ci_drop: "matches_ci pat p \<Longrightarrow> drop (length pat) (p @ x) = x"
  unfolding matches_ci_def by (rule drop_matched) simp

lemma remove_matched: "matches_ci pat p \<Longrightarrow> replace_prefix_ci pat [] (p @ x) = x"
  by (simp add: replace_prefix_ci_def matches_ci_starts matches_ci_drop del: drop_append)

lemma remove_unmatched: "\<not> starts_ci pat x \<Longrightarrow> replace_prefix_ci pat [] x = x"
  by (simp add: replace_prefix_ci_def)

lemma matches_slash_ipfs:
  "matches_ci ''/ipfs/'' p \<Longrightarrow> starts_ci ''/ipfs/'' (p @ x) \<and> drop 6 (p @ x) = x"
proof -
  assume m: "matches_ci ''/ipfs/'' p"
  then have "length p = 6"
    by (simp add: matches_ci_def)
  then have "drop 6 (p @ x) = x"
    by (rule drop_matched)
  with m show ?thesis
    by (simp only: matches_ci_starts simp_thms)
qed

lemma matches_ipfs_slash:
  "matches_ci ''ipfs/'' p \<Longrightarrow> \<not> starts_ci ''/ipfs/'' (p @ x)"
  using first_char_facts(3) [of "p @ x"] by (simp add: matches_ci_starts)

lemma successive_removal:
  assumes l: "trim val = p1 @ p2 @ p3 @ rest"
    and plain: "\<not> starts_ci ''ar://'' (trim val)" "\<not> is_http (trim val)"
    and one: "matches_ci ''ipfs://'' p1 \<or> p1 = [] \<and> \<not> starts_ci ''ipfs://'' (p2 @ p3 @ rest)"
    and two: "matches_ci ''/ipfs/'' p2 \<or> matches_ci ''ipfs/'' p2
              \<or> p2 = [] \<and> \<not> starts_ci ''/ipfs/'' (p3 @ rest) \<and> \<not> starts_ci ''ipfs/'' (p3 @ rest)"
    and three: "matches_ci ''ipfs/'' p3 \<or> p3 = [] \<and> \<not> starts_ci ''ipfs/'' rest"
  shows "normalize_link val = rest"
proof -
  define a where "a = replace_prefix_ci ''ipfs://'' [] (trim val)"
  define b where "b = (if starts_ci ''/ipfs/'' a then drop 6 a else replace_prefix_ci ''ipfs/'' [] a)"
  define c where "c = replace_prefix_ci ''ipfs/'' [] b"
  from one have a: "a = p2 @ p3 @ rest"
    unfolding a_def l by (auto simp: remove_matched remove_unmatched)
  from two have b: "b = p3 @ rest"
    unfolding b_def a
    by (auto simp: matches_slash_ipfs matches_ipfs_slash remove_matched remove_unmatched
        simp del: drop_append)
  from three have c: "c = rest"
    unfolding c_def b by (auto simp: remove_matched remove_unmatched)
  show ?thesis
  proof (cases "trim val = []")
    case True
    with l show ?thesis by (simp add: normalize_link_def)
  next
    case False
    with plain have "normalize_link val = c"
      by (simp add: normalize_link_def Let_def a_def b_def c_def)
    with c show ?thesis by simp
  qed
qed

lemma normalize_link_suffixes:
  assumes "\<not> starts_ci ''ar://'' (trim val)"
  shows "suffix (normalize_link val) (trim val)"
    and "\<not> is_http (trim val) \<Longrightarrow> suffix (normalize_link val) ((if starts_ci ''ipfs://'' (trim val) then drop 7 (trim val) else trim val))"
proof -
  define a where "a = replace_prefix_ci ''ipfs://'' [] (trim val)"
  define b where "b = (if starts_ci ''/ipfs/'' a then drop 6 a else replace_prefix_ci ''ipfs/'' [] a)"
  define c where "c = replace_prefix_ci ''ipfs/'' [] b"
  have step: "suffix (replace_prefix_ci p [] x) x" for p x
    by (simp add: replace_prefix_ci_def suffix_drop)
  have sa: "suffix a (trim val)" and sb: "suffix b a" and sc: "suffix c b"
    by (simp_all add: a_def b_def c_def step suffix_drop)
  then have ca: "suffix c a" and cl: "suffix c (trim val)"
    using suffix_order.trans by blast+
  have a: "a = (if starts_ci ''ipfs://'' (trim val) then drop 7 (trim val) else trim val)"
    by (simp add: a_def strip_literals)
  have n: "normalize_link val = (if trim val = [] \<or> is_http (trim val) then trim val else c)"
    using assms by (simp add: normalize_link_def Let_def a_def b_def c_def)
  from n cl show "suffix (normalize_link val) (trim val)"
    by simp
  assume "\<not> is_http (trim val)"
  with n ca a show "suffix (normalize_link val) ((if starts_ci ''ipfs://'' (trim val) then drop 7 (trim val) else trim val))"
    by auto
qed

lemma protocol_prefix_sublist: "spec_protocol_prefix c \<Longrightarrow> sublist ''://'' c"
proof -
  assume "spec_protocol_prefix c"
  then obtain ss where "dropWhile is_scheme_char c = ''://'' @ ss"
    by (auto simp: spec_protocol_prefix_def prefix_def)
  then have "c = takeWhile is_scheme_char c @ ''://'' @ ss"
    by (metis takeWhile_dropWhile_id)
  then show ?thesis
    unfolding sublist_def by blast
qed

lemma sublist_of_suffix:
  assumes "sublist m c" "suffix c a"
  shows "sublist m a"
proof -
  from assms obtain ps ss zs where "c = ps @ m @ ss" "a = zs @ c"
    by (auto simp: sublist_def suffix_def)
  then have "a = (zs @ ps) @ m @ ss"
    by simp
  then show ?thesis
    unfolding sublist_def by blast
qed

lemma ar_has_scheme_mark: "starts_ci ''ar://'' l \<Longrightarrow> sublist ''://'' l"
  using ar_is_protocol protocol_prefix_sublist by blast

lemma http_has_scheme_mark: "is_http l \<Longrightarrow> sublist ''://'' l"
  using http_is_protocol protocol_prefix_sublist by blast

lemma no_mark_no_prefix:
  assumes "\<not> sublist ''://'' ((if starts_ci ''ipfs://'' (trim val) then drop 7 (trim val) else trim val))"
  shows "\<not> spec_protocol_prefix (normalize_link val)"
proof
  assume "spec_protocol_prefix (normalize_link val)"
  then have m: "sublist ''://'' (normalize_link val)"
    by (rule protocol_prefix_sublist)
  have same: "(if starts_ci ''ipfs://'' (trim val) then drop 7 (trim val) else trim val) = trim val" if "starts_ci ''ar://'' (trim val) \<or> is_http (trim val)"
    using that first_char_facts(1) [of "trim val"] by auto
  have plain: "\<not> starts_ci ''ar://'' (trim val)" "\<not> is_http (trim val)"
  proof -
    show "\<not> starts_ci ''ar://'' (trim val)"
    proof
      assume ar: "starts_ci ''ar://'' (trim val)"
      then have "sublist ''://'' (trim val)"
        by (rule ar_has_scheme_mark)
      with assms same ar show False
        by simp
    qed
    show "\<not> is_http (trim val)"
    proof
      assume http: "is_http (trim val)"
      then have "sublist ''://'' (trim val)"
        by (rule http_has_scheme_mark)
      with assms same http show False
        by simp
    qed
  qed
  then have "suffix (normalize_link val) ((if starts_ci ''ipfs://'' (trim val) then drop 7 (trim val) else trim val))"
    by (rule normalize_link_suffixes(2))
  with m have "sublist ''://'' ((if starts_ci ''ipfs://'' (trim val) then drop 7 (trim val) else trim val))"
    by (rule sublist_of_suffix)
  with assms show False by simp
qed

lemma no_colon_no_prefix:
  assumes "CHR '':'' \<notin> set (trim val)"
  shows "\<not> spec_protocol_prefix (normalize_link val)"
proof -
  have "\<not> sublist ''://'' ((if starts_ci ''ipfs://'' (trim val) then drop 7 (trim val) else trim val))"
  proof
    assume "sublist ''://'' ((if starts_ci ''ipfs://'' (trim val) then drop 7 (trim val) else trim val))"
    then have "CHR '':'' \<in> set ((if starts_ci ''ipfs://'' (trim val) then drop 7 (trim val) else trim val))"
      by (auto simp: sublist_def)
    then have "CHR '':'' \<in> set (trim val)"
      by (auto dest: in_set_dropD split: if_splits)
    with assms show False by simp
  qed
  then show ?thesis by (rule no_mark_no_prefix)
qed

lemma starts_ci_take: "starts_ci pat l \<Longrightarrow> matches_ci pat (take (length pat) l)"
  by (induction pat l rule: starts_ci.induct) (auto simp: matches_ci_def)

lemma removal_step:
  "\<exists>p. x = p @ replace_prefix_ci pat [] x \<and> (matches_ci pat p \<or> p = [] \<and> \<not> starts_ci pat x)"
proof (cases "starts_ci pat x")
  case True
  then have "x = take (length pat) x @ replace_prefix_ci pat [] x"
    by (simp add: replace_prefix_ci_def)
  with True show ?thesis
    using starts_ci_take by blast
next
  case False
  then show ?thesis
    by (simp add: replace_prefix_ci_def)
qed

lemma removal_step_path:
  "\<exists>p. x = p @ (if starts_ci ''/ipfs/'' x then drop 6 x else replace_prefix_ci ''ipfs/'' [] x)
     \<and> (matches_ci ''/ipfs/'' p \<or> matches_ci ''ipfs/'' p
          \<or> p = [] \<and> \<not> starts_ci ''/ipfs/'' x \<and> \<not> starts_ci ''ipfs/'' x)"
proof (cases "starts_ci ''/ipfs/'' x")
  case True
  have "matches_ci ''/ipfs/'' (take 6 x)"
    using starts_ci_take [OF True] by (simp add: eval_nat_numeral)
  with True show ?thesis
    by (intro exI [of _ "take 6 x"]) simp
next
  case False
  obtain p where "x = p @ replace_prefix_ci ''ipfs/'' [] x"
    and "matches_ci ''ipfs/'' p \<or> p = [] \<and> \<not> starts_ci ''ipfs/'' x"
    using removal_step [where x = x and pat = "''ipfs/''"] by (elim exE conjE)
  with False show ?thesis
    by (intro exI [of _ p]) simp
qed

lemma removal_exists:
  assumes "\<not> starts_ci ''ar://'' (trim val)" "\<not> is_http (trim val)"
  shows "\<exists>p1 p2 p3. trim val = p1 @ p2 @ p3 @ normalize_link val
           \<and> (matches_ci ''ipfs://'' p1
                \<or> p1 = [] \<and> \<not> starts_ci ''ipfs://'' (p2 @ p3 @ normalize_link val))
           \<and> (matches_ci ''/ipfs/'' p2 \<or> matches_ci ''ipfs/'' p2
                \<or> p2 = [] \<and> \<not> starts_ci ''/ipfs/'' (p3 @ normalize_link val)
                    \<and> \<not> starts_ci ''ipfs/'' (p3 @ normalize_link val))
           \<and> (matches_ci ''ipfs/'' p3 \<or> p3 = [] \<and> \<not> starts_ci ''ipfs/'' (normalize_link val))"
proof -
  define a where "a = replace_prefix_ci ''ipfs://'' [] (trim val)"
  define b where "b = (if starts_ci ''/ipfs/'' a then drop 6 a else replace_prefix_ci ''ipfs/'' [] a)"
  define c where "c = replace_prefix_ci ''ipfs/'' [] b"
  have "normalize_link val = (if trim val = [] then [] else c)"
    using assms by (simp add: normalize_link_def Let_def a_def b_def c_def)
  moreover have "c = []" if "trim val = []"
    using that by (simp add: a_def b_def c_def replace_prefix_ci_def)
  ultimately have n: "normalize_link val = c"
    by simp
  obtain p1 where p1: "trim val = p1 @ a"
    "matches_ci ''ipfs://'' p1 \<or> p1 = [] \<and> \<not> starts_ci ''ipfs://'' (trim val)"
    unfolding a_def using removal_step by blast
  obtain p2 where p2: "a = p2 @ b"
    "matches_ci ''/ipfs/'' p2 \<or> matches_ci ''ipfs/'' p2
       \<or> p2 = [] \<and> \<not> starts_ci ''/ipfs/'' a \<and> \<not> starts_ci ''ipfs/'' a"
    unfolding b_def using removal_step_path by blast
  obtain p3 where p3: "b = p3 @ c"
    "matches_ci ''ipfs/'' p3 \<or> p3 = [] \<and> \<not> starts_ci ''ipfs/'' b"
    unfolding c_def using removal_step by blast
  have "trim val = p1 @ p2 @ p3 @ c"
    using p1(1) p2(1) p3(1) by simp
  moreover have "matches_ci ''ipfs://'' p1 \<or> p1 = [] \<and> \<not> starts_ci ''ipfs://'' (p2 @ p3 @ c)"
    using p1 p2(1) p3(1) by auto
  moreover have "matches_ci ''/ipfs/'' p2 \<or> matches_ci ''ipfs/'' p2
       \<or> p2 = [] \<and> \<not> starts_ci ''/ipfs/'' (p3 @ c) \<and> \<not> starts_ci ''ipfs/'' (p3 @ c)"
    using p2 p3(1) by auto
  moreover have "matches_ci ''ipfs/'' p3 \<or> p3 = [] \<and> \<not> starts_ci ''ipfs/'' c"
    using p3 by auto
  ultimately show ?thesis
    unfolding n by blast
qed

lemma http_output:
  assumes "starts_ci ''ar://'' (trim val) \<or> is_http (trim val)"
  shows "is_http (normalize_link val)"
proof (cases "starts_ci ''ar://'' (trim val)")
  case True
  then have "normalize_link val = ''https://arweave.net/'' @ drop 5 (trim val)"
    by (auto simp: normalize_link_def Let_def strip_literals)
  then show ?thesis
    by (simp add: is_http_def ci_eq_def lower_code_def)
next
  case False
  with assms show ?thesis
    by (auto simp: normalize_link_def Let_def)
qed

lemma trim_example: "trim '' ipfs://QmAbc/meta.json '' = ''ipfs://QmAbc/meta.json''"
  by (simp add: string_eval)

lemma bare_example: "bare_identifier ''QmAbc/meta.json''"
  by (simp add: bare_identifier_def spec_protocol_prefix_def is_scheme_char_def string_eval)

text \<open>
  Claim C4 as stated fails: the normalizer removes each IPFS prefix at most once and
  knows no other scheme, so an output that is not an http(s) URL can still begin
  with a protocol prefix.
\<close>

theorem normalize_keeps_prefix_counterexample:
  "normalize_link ''ipfs://ipfs://QmX'' = ''ipfs://QmX''
   \<and> \<not> is_http ''ipfs://QmX'' \<and> spec_protocol_prefix ''ipfs://QmX''
   \<and> normalize_link ''ftp://host/file'' = ''ftp://host/file''
   \<and> \<not> is_http ''ftp://host/file'' \<and> spec_protocol_prefix ''ftp://host/file''"
  by (simp add: normalize_link_def string_eval spec_protocol_prefix_def is_scheme_char_def)

text \<open>
  Claim C4, amended. The normalizer applies its rules in order to the trimmed input
  \<open>trim val\<close>: an empty string gives the empty string; \<^verbatim>\<open>ar://\<close> is rewritten to
  \<^verbatim>\<open>https://arweave.net/\<close>; an http(s) URL is passed through; in these two cases the
  output is an http(s) URL. Otherwise three removals follow one another, each of
  one occurrence at most and each without regard to case: a leading \<^verbatim>\<open>ipfs://\<close>, then
  a leading \<^verbatim>\<open>/ipfs/\<close> or \<^verbatim>\<open>ipfs/\<close>, then one more leading \<^verbatim>\<open>ipfs/\<close>. The output is what
  is left, every trimmed input splits in this way, and \<^verbatim>\<open>ipfs://\<close> alone gives the
  empty string. The output has no protocol prefix whenever the trimmed input,
  after the removal of one leading \<^verbatim>\<open>ipfs://\<close>, does not contain \<^verbatim>\<open>://\<close>, in particular
  whenever the trimmed input has no colon. When the trimmed input is a bare
  identifier, or one of \<^verbatim>\<open>ipfs://\<close>, \<^verbatim>\<open>/ipfs/\<close>, \<^verbatim>\<open>ipfs/\<close> followed by a bare identifier, the
  output is that identifier.
\<close>

theorem normalize_rules:
  "(trim val = [] \<longrightarrow> normalize_link val = [])
   \<and> (starts_ci ''ar://'' (trim val) \<longrightarrow>
        normalize_link val = ''https://arweave.net/'' @ drop 5 (trim val))
   \<and> (\<not> starts_ci ''ar://'' (trim val) \<longrightarrow> is_http (trim val) \<longrightarrow> normalize_link val = trim val)
   \<and> (\<not> starts_ci ''ar://'' (trim val) \<longrightarrow> suffix (normalize_link val) (trim val))
   \<and> (starts_ci ''ipfs://'' (trim val) \<longrightarrow> drop 7 (trim val) = [] \<longrightarrow> normalize_link val = [])
   \<and> (bare_identifier (trim val)
        \<or> starts_ci ''ipfs://'' (trim val) \<and> bare_identifier (drop 7 (trim val))
        \<or> starts_ci ''/ipfs/'' (trim val) \<and> bare_identifier (drop 6 (trim val))
        \<or> starts_ci ''ipfs/'' (trim val) \<and> bare_identifier (drop 5 (trim val))
      \<longrightarrow> bare_identifier (normalize_link val) \<and> \<not> spec_protocol_prefix (normalize_link val))
   \<and> (bare_identifier (trim val) \<longrightarrow> normalize_link val = trim val)
   \<and> (starts_ci ''ipfs://'' (trim val) \<longrightarrow> bare_identifier (drop 7 (trim val)) \<longrightarrow>
        normalize_link val = drop 7 (trim val))
   \<and> (starts_ci ''/ipfs/'' (trim val) \<longrightarrow> bare_identifier (drop 6 (trim val)) \<longrightarrow>
        normalize_link val = drop 6 (trim val))
   \<and> (starts_ci ''ipfs/'' (trim val) \<longrightarrow> bare_identifier (drop 5 (trim val)) \<longrightarrow>
        normalize_link val = drop 5 (trim val))
   \<and> (\<not> starts_ci ''ar://'' (trim val) \<longrightarrow> \<not> is_http (trim val) \<longrightarrow>
        trim val = p1 @ p2 @ p3 @ rest \<longrightarrow>
        (matches_ci ''ipfs://'' p1 \<or> p1 = [] \<and> \<not> starts_ci ''ipfs://'' (p2 @ p3 @ rest)) \<longrightarrow>
        (matches_ci ''/ipfs/'' p2 \<or> matches_ci ''ipfs/'' p2
           \<or> p2 = [] \<and> \<not> starts_ci ''/ipfs/'' (p3 @ rest) \<and> \<not> starts_ci ''ipfs/'' (p3 @ rest)) \<longrightarrow>
        (matches_ci ''ipfs/'' p3 \<or> p3 = [] \<and> \<not> starts_ci ''ipfs/'' rest) \<longrightarrow>
        normalize_link val = rest)
   \<and> (\<not> starts_ci ''ar://'' (trim val) \<longrightarrow> \<not> is_http (trim val) \<longrightarrow>
        (\<exists>q1 q2 q3. trim val = q1 @ q2 @ q3 @ normalize_link val
           \<and> (matches_ci ''ipfs://'' q1
                \<or> q1 = [] \<and> \<not> starts_ci ''ipfs://'' (q2 @ q3 @ normalize_link val))
           \<and> (matches_ci ''/ipfs/'' q2 \<or> matches_ci ''ipfs/'' q2
                \<or> q2 = [] \<and> \<not> starts_ci ''/ipfs/'' (q3 @ normalize_link val)
                    \<and> \<not> starts_ci ''ipfs/'' (q3 @ normalize_link val))
           \<and> (matches_ci ''ipfs/'' q3 \<or> q3 = [] \<and> \<not> starts_ci ''ipfs/'' (normalize_link val))))
   \<and> (starts_ci ''ar://'' (trim val) \<or> is_http (trim val) \<longrightarrow> is_http (normalize_link val))
   \<and> (\<not> sublist ''://'' (if starts_ci ''ipfs://'' (trim val) then drop 7 (trim val) else trim val)
        \<longrightarrow> \<not> spec_protocol_prefix (normalize_link val))
   \<and> (CHR '':'' \<notin> set (trim val) \<longrightarrow> \<not> spec_protocol_prefix (normalize_link val))"
proof (intro conjI impI)
  show "normalize_link val = []" if "trim val = []"
    using that by (simp add: normalize_link_def)
  show "normalize_link val = ''https://arweave.net/'' @ drop 5 (trim val)"
    if "starts_ci ''ar://'' (trim val)"
    using that by (auto simp: normalize_link_def Let_def strip_literals)
  show "normalize_link val = trim val" if "\<not> starts_ci ''ar://'' (trim val)" "is_http (trim val)"
    using that by (auto simp: normalize_link_def Let_def)
  show "suffix (normalize_link val) (trim val)" if "\<not> starts_ci ''ar://'' (trim val)"
    using that by (rule normalize_link_suffixes(1))
  show "normalize_link val = []" if "starts_ci ''ipfs://'' (trim val)" "drop 7 (trim val) = []"
    using that first_char_facts(1) [OF that(1)]
    by (auto simp: normalize_link_def Let_def strip_literals)
  assume "bare_identifier (trim val)
        \<or> starts_ci ''ipfs://'' (trim val) \<and> bare_identifier (drop 7 (trim val))
        \<or> starts_ci ''/ipfs/'' (trim val) \<and> bare_identifier (drop 6 (trim val))
        \<or> starts_ci ''ipfs/'' (trim val) \<and> bare_identifier (drop 5 (trim val))"
  then show bare: "bare_identifier (normalize_link val)"
    using bare_unchanged strip_ipfs_scheme strip_ipfs_path strip_ipfs_relative
    by metis
  then show "\<not> spec_protocol_prefix (normalize_link val)"
    by (simp add: bare_identifier_def)
next
  show "normalize_link val = trim val" if "bare_identifier (trim val)"
    using that by (rule bare_unchanged)
  show "normalize_link val = drop 7 (trim val)"
    if "starts_ci ''ipfs://'' (trim val)" "bare_identifier (drop 7 (trim val))"
    using that by (rule strip_ipfs_scheme)
  show "normalize_link val = drop 6 (trim val)"
    if "starts_ci ''/ipfs/'' (trim val)" "bare_identifier (drop 6 (trim val))"
    using that by (rule strip_ipfs_path)
  show "normalize_link val = drop 5 (trim val)"
    if "starts_ci ''ipfs/'' (trim val)" "bare_identifier (drop 5 (trim val))"
    using that by (rule strip_ipfs_relative)
  show "normalize_link val = rest"
    if "\<not> starts_ci ''ar://'' (trim val)" "\<not> is_http (trim val)"
      "trim val = p1 @ p2 @ p3 @ rest"
      "matches_ci ''ipfs://'' p1 \<or> p1 = [] \<and> \<not> starts_ci ''ipfs://'' (p2 @ p3 @ rest)"
      "matches_ci ''/ipfs/'' p2 \<or> matches_ci ''ipfs/'' p2
           \<or> p2 = [] \<and> \<not> starts_ci ''/ipfs/'' (p3 @ rest) \<and> \<not> starts_ci ''ipfs/'' (p3 @ rest)"
      "matches_ci ''ipfs/'' p3 \<or> p3 = [] \<and> \<not> starts_ci ''ipfs/'' rest"
    using that(3,1,2,4,5,6) by (rule successive_removal)
  show "\<exists>q1 q2 q3. trim val = q1 @ q2 @ q3 @ normalize_link val
           \<and> (matches_ci ''ipfs://'' q1
                \<or> q1 = [] \<and> \<not> starts_ci ''ipfs://'' (q2 @ q3 @ normalize_link val))
           \<and> (matches_ci ''/ipfs/'' q2 \<or> matches_ci ''ipfs/'' q2
                \<or> q2 = [] \<and> \<not> starts_ci ''/ipfs/'' (q3 @ normalize_link val)
                    \<and> \<not> starts_ci ''ipfs/'' (q3 @ normalize_link val))
           \<and> (matches_ci ''ipfs/'' q3 \<or> q3 = [] \<and> \<not> starts_ci ''ipfs/'' (normalize_link val))"
    if "\<not> starts_ci ''ar://'' (trim val)" "\<not> is_http (trim val)"
    using that by (rule removal_exists)
  show "is_http (normalize_link val)" if "starts_ci ''ar://'' (trim val) \<or> is_http (trim val)"
    using that by (rule http_output)
  show "\<not> spec_protocol_prefix (normalize_link val)"
    if "\<not> sublist ''://'' (if starts_ci ''ipfs://'' (trim val) then drop 7 (trim val) else trim val)"
    using that by (rule no_mark_no_prefix)
  show "\<not> spec_protocol_prefix (normalize_link val)" if "CHR '':'' \<notin> set (trim val)"
    using that by (rule no_colon_no_prefix)
qed

theorem normalize_rules_witness:
  "normalize_link '' ipfs://QmAbc/meta.json '' = ''QmAbc/meta.json''
   \<and> \<not> spec_protocol_prefix (normalize_link '' ipfs://QmAbc/meta.json '')
   \<and> normalize_link ''AR://tx1'' = ''https://arweave.net/tx1''
   \<and> normalize_link ''https://example.org/a.json'' = ''https://example.org/a.json''
   \<and> normalize_link ''ipfs://'' = []
   \<and> normalize_link ''ipfs://ipfs/ipfs/QmX'' = ''QmX''
   \<and> normalize_link ''/IPFS/ipfs/QmX/a.json'' = ''QmX/a.json''
   \<and> normalize_link ''ipfs/ipfs/ipfs/QmX'' = ''ipfs/QmX''
   \<and> \<not> spec_protocol_prefix (normalize_link ''ipfs://ipfs/QmX'')
   \<and> \<not> spec_protocol_prefix (normalize_link ''/ipfs/QmX/a.json'')
   \<and> is_http (normalize_link ''AR://tx1'')"
proof -
  let ?none = "[] :: string"
  note padded = normalize_rules [where val = "'' ipfs://QmAbc/meta.json ''" and ?p1.0 = ?none
        and ?p2.0 = ?none and ?p3.0 = ?none and rest = ?none]
  have "normalize_link '' ipfs://QmAbc/meta.json '' = ''QmAbc/meta.json''"
    using padded [THEN conjunct2, THEN conjunct2, THEN conjunct2, THEN conjunct2, THEN conjunct2, THEN conjunct2, THEN conjunct2, THEN conjunct1] bare_example
    by (simp add: trim_example ci_eq_def lower_code_def)
  moreover have "\<not> spec_protocol_prefix (normalize_link '' ipfs://QmAbc/meta.json '')"
    using padded [THEN conjunct2, THEN conjunct2, THEN conjunct2, THEN conjunct2, THEN conjunct2, THEN conjunct1] bare_example
    by (simp add: trim_example ci_eq_def lower_code_def)
  moreover note ar = normalize_rules [where val = "''AR://tx1''" and ?p1.0 = ?none
        and ?p2.0 = ?none and ?p3.0 = ?none and rest = ?none]
  have "normalize_link ''AR://tx1'' = ''https://arweave.net/tx1''"
    using ar [THEN conjunct2, THEN conjunct1] by (simp add: string_eval)
  moreover have "is_http (normalize_link ''AR://tx1'')"
    using ar [THEN conjunct2, THEN conjunct2, THEN conjunct2, THEN conjunct2, THEN conjunct2, THEN conjunct2, THEN conjunct2, THEN conjunct2, THEN conjunct2, THEN conjunct2, THEN conjunct2, THEN conjunct2, THEN conjunct1] by (simp add: string_eval)
  moreover have "normalize_link ''https://example.org/a.json'' = ''https://example.org/a.json''"
    using normalize_rules [where val = "''https://example.org/a.json''" and ?p1.0 = ?none
        and ?p2.0 = ?none and ?p3.0 = ?none and rest = ?none, THEN conjunct2, THEN conjunct2, THEN conjunct1]
    by (simp add: string_eval)
  moreover have "normalize_link ''ipfs://'' = []"
    using normalize_rules [where val = "''ipfs://''" and ?p1.0 = ?none
        and ?p2.0 = ?none and ?p3.0 = ?none and rest = ?none, THEN conjunct2, THEN conjunct2, THEN conjunct2, THEN conjunct2, THEN conjunct1]
    by (simp add: string_eval)
  moreover have "normalize_link ''ipfs://ipfs/ipfs/QmX'' = ''QmX''"
    using normalize_rules [where val = "''ipfs://ipfs/ipfs/QmX''" and ?p1.0 = "''ipfs://''"
        and ?p2.0 = "''ipfs/''" and ?p3.0 = "''ipfs/''" and rest = "''QmX''", THEN conjunct2, THEN conjunct2, THEN conjunct2, THEN conjunct2, THEN conjunct2, THEN conjunct2, THEN conjunct2, THEN conjunct2, THEN conjunct2, THEN conjunct2, THEN conjunct1]
    by (simp add: string_eval matches_ci_def)
  moreover have "normalize_link ''/IPFS/ipfs/QmX/a.json'' = ''QmX/a.json''"
    using normalize_rules [where val = "''/IPFS/ipfs/QmX/a.json''" and ?p1.0 = ?none
        and ?p2.0 = "''/IPFS/''" and ?p3.0 = "''ipfs/''" and rest = "''QmX/a.json''", THEN conjunct2, THEN conjunct2, THEN conjunct2, THEN conjunct2, THEN conjunct2, THEN conjunct2, THEN conjunct2, THEN conjunct2, THEN conjunct2, THEN conjunct2, THEN conjunct1]
    by (simp add: string_eval matches_ci_def)
  moreover have "normalize_link ''ipfs/ipfs/ipfs/QmX'' = ''ipfs/QmX''"
    using normalize_rules [where val = "''ipfs/ipfs/ipfs/QmX''" and ?p1.0 = ?none
        and ?p2.0 = "''ipfs/''" and ?p3.0 = "''ipfs/''" and rest = "''ipfs/QmX''", THEN conjunct2, THEN conjunct2, THEN conjunct2, THEN conjunct2, THEN conjunct2, THEN conjunct2, THEN conjunct2, THEN conjunct2, THEN conjunct2, THEN conjunct2, THEN conjunct1]
    by (simp add: string_eval matches_ci_def)
  moreover have "\<not> spec_protocol_prefix (normalize_link ''ipfs://ipfs/QmX'')"
    using normalize_rules [where val = "''ipfs://ipfs/QmX''" and ?p1.0 = ?none
        and ?p2.0 = ?none and ?p3.0 = ?none and rest = ?none, THEN conjunct2, THEN conjunct2, THEN conjunct2, THEN conjunct2, THEN conjunct2, THEN conjunct2, THEN conjunct2, THEN conjunct2, THEN conjunct2, THEN conjunct2, THEN conjunct2, THEN conjunct2, THEN conjunct2, THEN conjunct1]
    by (simp add: string_eval sublist_Cons_right)
  moreover have "\<not> spec_protocol_prefix (normalize_link ''/ipfs/QmX/a.json'')"
    using normalize_rules [where val = "''/ipfs/QmX/a.json''" and ?p1.0 = ?none
        and ?p2.0 = ?none and ?p3.0 = ?none and rest = ?none, THEN conjunct2, THEN conjunct2, THEN conjunct2, THEN conjunct2, THEN conjunct2, THEN conjunct2, THEN conjunct2, THEN conjunct2, THEN conjunct2, THEN conjunct2, THEN conjunct2, THEN conjunct2, THEN conjunct2, THEN conjunct2]
    by (simp add: string_eval)
  ultimately show ?thesis by (intro conjI)
qed

subsection \<open>Pointer extraction\<close>

lemma trim_nonempty: "c \<in> set s \<Longrightarrow> \<not> is_ws c \<Longrightarrow> trim s \<noteq> []"
proof -
  assume c: "c \<in> set s" "\<not> is_ws c"
  then have "c \<in> set (dropWhile is_ws s)"
    by (induction s) auto
  with c have "dropWhile is_ws (rev (dropWhile is_ws s)) \<noteq> []"
    by (auto simp: dropWhile_eq_Nil_conv)
  then show ?thesis by (simp add: trim_def)
qed

lemma first_not_ws: "s = c # cs \<Longrightarrow> \<not> is_ws c \<Longrightarrow> trim s \<noteq> []"
  by (rule trim_nonempty [of c]) simp_all

lemma ci_eq_not_ws:
  "ci_eq p c \<Longrightarrow> 97 \<le> lower_code p \<Longrightarrow> lower_code p \<le> 122 \<Longrightarrow> \<not> is_ws c"
  by (auto simp: ci_eq_def lower_code_def is_ws_def Let_def split: if_splits)

lemma isStringCid_not_blank: "isStringCid p \<Longrightarrow> trim p \<noteq> []"
proof -
  assume "isStringCid p"
  then obtain c cs where "p = c # cs" "ci_eq CHR ''Q'' c \<or> ci_eq CHR ''b'' c"
    by (auto simp: isStringCid_def starts_ci_Cons)
  moreover have "97 \<le> lower_code CHR ''Q''" "lower_code CHR ''Q'' \<le> 122"
    "97 \<le> lower_code CHR ''b''" "lower_code CHR ''b'' \<le> 122"
    by (simp_all add: lower_code_def)
  ultimately show ?thesis
    using ci_eq_not_ws first_not_ws by blast
qed

lemma ipfs_prefix_not_blank: "prefix ''ipfs://'' p \<Longrightarrow> trim p \<noteq> []"
proof -
  assume "prefix ''ipfs://'' p"
  then obtain cs where "p = CHR ''i'' # cs"
    by (auto simp: prefix_def)
  then show ?thesis
    by (rule first_not_ws) (simp add: is_ws_def)
qed

lemma extract_keys_finds:
  "k \<in> set ks \<Longrightarrow> map_of kvs k = Some (JStr p) \<Longrightarrow> trim p \<noteq> [] \<Longrightarrow> extract_keys kvs ks \<noteq> None"
proof (induction ks)
  case Nil
  then show ?case by simp
next
  case (Cons a ks)
  then have "p \<noteq> []" by auto
  with Cons show ?case
    by (cases "a = k") (auto split: option.splits)
qed

lemma cid_fallback_source:
  assumes "cid_fallback kvs = Some p"
  shows "(isStringCid p \<or> prefix ''ipfs://'' p)
         \<and> (\<exists>k \<in> {''cid'', ''hash'', ''/''}. map_of kvs k = Some (JStr p))"
proof -
  define vs where "vs = filter truthy [get_prop (JObj kvs) ''cid'', get_prop (JObj kvs) ''hash'',
                                        get_prop (JObj kvs) ''/'']"
  from assms have hd: "\<exists>rest. vs = JStr p # rest" and form: "isStringCid p \<or> prefix ''ipfs://'' p"
    unfolding cid_fallback_def Let_def vs_def [symmetric]
    by (auto split: list.splits json.splits if_splits)
  then have "JStr p \<in> set vs" by auto
  then have "JStr p \<in> {get_prop (JObj kvs) ''cid'', get_prop (JObj kvs) ''hash'', get_prop (JObj kvs) ''/''}"
    by (auto simp: vs_def split: if_splits)
  then have "\<exists>k \<in> {''cid'', ''hash'', ''/''}. map_of kvs k = Some (JStr p)"
    by (auto split: option.splits)
  with form show ?thesis by blast
qed

lemma cid_fallback_dead:
  "extract_keys kvs link_keys = None \<Longrightarrow> cid_fallback kvs = None"
proof (rule ccontr)
  assume none: "extract_keys kvs link_keys = None" and "cid_fallback kvs \<noteq> None"
  then obtain p where "cid_fallback kvs = Some p" by auto
  from cid_fallback_source [OF this] obtain k where
    k: "k \<in> {''cid'', ''hash'', ''/''}" "map_of kvs k = Some (JStr p)"
    and form: "isStringCid p \<or> prefix ''ipfs://'' p"
    by blast
  from form have "trim p \<noteq> []"
    using isStringCid_not_blank ipfs_prefix_not_blank by blast
  moreover from k have "k \<in> set link_keys"
    by (auto simp: link_keys_def)
  ultimately have "extract_keys kvs link_keys \<noteq> None"
    using k extract_keys_finds by blast
  with none show False by simp
qed

lemma split_at_key: "k \<in> set ks \<Longrightarrow> \<exists>post. ks = takeWhile (\<lambda>k'. k' \<noteq> k) ks @ k # post"
  by (induction ks) auto

lemma extract_keys_first:
  assumes "list_all (key_silent kvs) pre"
    and "map_of kvs k = Some (JStr s)" and "trim s \<noteq> []"
  shows "extract_keys kvs (pre @ k # post) = Some (trim s)"
  using assms
proof (induction pre)
  case Nil
  then have "s \<noteq> []" by auto
  with Nil show ?case by simp
next
  case (Cons a pre)
  then show ?case
    by (auto simp: key_silent_def split: option.splits)
qed

lemma extract_object_keys: "extractIpfsLink (JObj kvs) = extract_keys kvs link_keys"
proof (cases "extract_keys kvs link_keys")
  case None
  with cid_fallback_dead have "cid_fallback kvs = None" by blast
  with None show ?thesis by (simp only: extractIpfsLink.simps option.case)
next
  case (Some g)
  then show ?thesis by (simp only: extractIpfsLink.simps option.case)
qed

lemma cid_hash_in_keys: "k \<in> {''cid'', ''hash''} \<Longrightarrow> k \<in> set link_keys"
  by (auto simp: link_keys_def)

text \<open>
  Claim C3 as stated fails: \<^verbatim>\<open>cid\<close> and \<^verbatim>\<open>hash\<close> are in the list of keys that the loop
  searches, and the loop returns any string that is not blank. The string
  \<^verbatim>\<open>hello\<close> under \<^verbatim>\<open>cid\<close> is returned although it is no content identifier and has no
  \<^verbatim>\<open>ipfs://\<close> prefix.
\<close>

theorem cid_unchecked_counterexample:
  "extractIpfsLink (JObj [(''cid'', JStr ''hello'')]) = Some ''hello''
   \<and> \<not> isStringCid ''hello'' \<and> \<not> prefix ''ipfs://'' ''hello''"
proof -
  have "extractIpfsLink (JObj [(''cid'', JStr ''hello'')]) = Some ''hello''"
    by (simp add: link_keys_def trim_def is_ws_def)
  moreover have "\<not> isStringCid ''hello'' \<and> \<not> prefix ''ipfs://'' ''hello''"
    by (simp add: isStringCid_def ci_eq_def lower_code_def)
  ultimately show ?thesis by blast
qed

text \<open>
  Claim C3, amended. For every object input, a string under the \<^verbatim>\<open>cid\<close> or the \<^verbatim>\<open>hash\<close>
  key that is not blank is returned, trimmed, whatever its form, when the keys
  before it in the priority list give nothing. The test for a content-identifier
  pattern or an \<^verbatim>\<open>ipfs://\<close> prefix comes after the loop over the keys and adds no
  result: the result for an object is the result of that loop.
\<close>

theorem cid_hash_taken_as_found:
  "(k \<in> {''cid'', ''hash''} \<longrightarrow> map_of kvs k = Some (JStr s) \<longrightarrow> trim s \<noteq> [] \<longrightarrow>
      list_all (key_silent kvs) (keys_before k) \<longrightarrow>
      extractIpfsLink (JObj kvs) = Some (trim s))
   \<and> extractIpfsLink (JObj kvs) = extract_keys kvs link_keys"
proof (intro conjI impI)
  show "extractIpfsLink (JObj kvs) = extract_keys kvs link_keys"
    by (rule extract_object_keys)
  assume k: "k \<in> {''cid'', ''hash''}" and v: "map_of kvs k = Some (JStr s)" "trim s \<noteq> []"
    and silent: "list_all (key_silent kvs) (keys_before k)"
  from k have "k \<in> set link_keys"
    by (rule cid_hash_in_keys)
  from split_at_key [OF this] obtain post where
    "link_keys = takeWhile (\<lambda>k'. k' \<noteq> k) link_keys @ k # post" ..
  then have post: "link_keys = keys_before k @ k # post"
    unfolding keys_before_def .
  have "extract_keys kvs (keys_before k @ k # post) = Some (trim s)"
    using silent v by (rule extract_keys_first)
  then show "extractIpfsLink (JObj kvs) = Some (trim s)"
    by (simp only: extract_object_keys post [symmetric])
qed

theorem cid_hash_taken_as_found_witness:
  "extractIpfsLink (JObj [(''name'', JStr ''Diploma''), (''uri'', JStr ''  ''),
                          (''hash'', JStr '' 0xdeadbeef '')]) = Some ''0xdeadbeef''
   \<and> \<not> isStringCid '' 0xdeadbeef '' \<and> \<not> prefix ''ipfs://'' '' 0xdeadbeef ''"
proof -
  let ?kvs = "[(''name'', JStr ''Diploma''), (''uri'', JStr ''  ''), (''hash'', JStr '' 0xdeadbeef '')]"
  have t: "trim '' 0xdeadbeef '' = ''0xdeadbeef''"
    by (simp add: trim_def is_ws_def)
  have b: "keys_before ''hash'' =
      [''ipfs_link'', ''ipfs'', ''ip_fs_link'', ''tokenURI'', ''tokenUri'', ''url'', ''uri'',
       ''href'', ''link'', ''src'', ''path'', ''image'', ''animation_url'', ''metadata_uri'',
       ''gateway'', ''cid'']"
    by (simp add: keys_before_def link_keys_def)
  have s: "list_all (key_silent ?kvs) (keys_before ''hash'')"
    unfolding b by (simp add: key_silent_def trim_def is_ws_def)
  have m: "map_of ?kvs ''hash'' = Some (JStr '' 0xdeadbeef '')"
    by simp
  from cid_hash_taken_as_found [of "''hash''" ?kvs "'' 0xdeadbeef ''"] s m t
  have "extractIpfsLink (JObj ?kvs) = Some ''0xdeadbeef''"
    by simp
  moreover have "\<not> isStringCid '' 0xdeadbeef '' \<and> \<not> prefix ''ipfs://'' '' 0xdeadbeef ''"
    by (simp add: isStringCid_def ci_eq_def lower_code_def)
  ultimately show ?thesis by blast
qed

subsection \<open>Candidate Resolver\<close>

lemma split_slash_plain: "CHR ''/'' \<notin> set s \<Longrightarrow> split_slash s = [s]"
  by (induction s) auto

lemma split_slash_append:
  "CHR ''/'' \<notin> set s \<Longrightarrow> split_slash (s @ CHR ''/'' # t) = s # split_slash t"
  by (induction s) auto

lemma split_slash_join:
  "\<forall>seg \<in> set (x # xs). CHR ''/'' \<notin> set seg \<Longrightarrow> split_slash (join_slash (x # xs)) = x # xs"
proof (induction xs arbitrary: x)
  case Nil
  then show ?case by (simp add: split_slash_plain)
next
  case (Cons y ys)
  then have "split_slash (join_slash (y # ys)) = y # ys" by simp
  with Cons.prems show ?case by (simp add: split_slash_append)
qed

lemma split_slash_nonempty: "split_slash s \<noteq> []"
  by (induction s) (auto split: list.splits)

lemma split_slash_segments: "seg \<in> set (split_slash s) \<Longrightarrow> CHR ''/'' \<notin> set seg"
  by (induction s arbitrary: seg) (auto split: list.splits if_splits)

lemma join_slash_push: "join_slash ((c # x) # xs) = c # join_slash (x # xs)"
  by (cases xs) simp_all

lemma join_split_slash: "join_slash (split_slash s) = s"
proof (induction s)
  case Nil
  show ?case by simp
next
  case (Cons c cs)
  obtain x xs where sp: "split_slash cs = x # xs"
    using split_slash_nonempty [of cs] by (cases "split_slash cs") auto
  with Cons show ?case
    by (cases "c = CHR ''/''") (simp_all add: join_slash_push)
qed

lemma split_pointer_segments:
  assumes "\<forall>seg \<in> set segs. CHR ''/'' \<notin> set seg" and "segs \<noteq> []"
  shows "split_pointer (join_slash segs) =
           (case filter (\<lambda>p. p \<noteq> []) segs of
              [] \<Rightarrow> ([], [])
            | c # rest \<Rightarrow> (c, if rest = [] then [] else ''/'' @ join_slash rest))"
proof -
  from assms obtain x xs where "segs = x # xs" by (cases segs) auto
  with assms have "split_slash (join_slash segs) = segs"
    using split_slash_join [of x xs] by simp
  then show ?thesis
    by (simp add: split_pointer_def split: list.splits)
qed

text \<open>
  Claim C5 as stated fails for the candidate list that \<^verbatim>\<open>fetchIpfs\<close> builds in the page:
  for the identifier \<^verbatim>\<open>QmX\<close> it holds no subdomain-style URL.
\<close>

theorem client_list_path_only_counterexample:
  "\<not> is_http ''QmX'' \<and> split_pointer ''QmX'' = (''QmX'', [])
   \<and> \<not> (\<exists>u \<in> set (clientCandidates ''QmX''). subdomain_style ''QmX'' [] u)"
  by (simp add: clientCandidates_QmX subdomain_style_def split_pointer_def string_eval)

text \<open>
  Claim C5, amended. Every pointer is the join by \<^verbatim>\<open>/\<close> of its segments (the strings
  between its slashes, some of which may be empty). The pointer is split by dropping
  the empty segments: the first segment left is the identifier (the empty string if
  none is left), and the others, each led by \<^verbatim>\<open>/\<close>, are the path (empty if there are
  none). For every pointer that is not an http(s) URL, \<^verbatim>\<open>buildCandidates\<close> of the proxy
  endpoint gives the five path-style URLs \<^verbatim>\<open>https://<host>/ipfs/<id><path>\<close>
  (cloudflare-ipfs.com, ipfs.io, nftstorage.link, dweb.link, gateway.pinata.cloud)
  followed by the two subdomain-style URLs \<^verbatim>\<open>https://<id>.ipfs.<host><path>\<close>
  (nftstorage.link, dweb.link), in this order; the list of the page's \<^verbatim>\<open>fetchIpfs\<close>
  holds the five path-style URLs only, in the same order.
\<close>

theorem candidate_lists:
  "(\<not> is_http src \<longrightarrow> split_pointer src = (cid, path) \<longrightarrow>
      buildCandidates src =
        [''https://cloudflare-ipfs.com/ipfs/'' @ cid @ path,
         ''https://ipfs.io/ipfs/'' @ cid @ path,
         ''https://nftstorage.link/ipfs/'' @ cid @ path,
         ''https://dweb.link/ipfs/'' @ cid @ path,
         ''https://gateway.pinata.cloud/ipfs/'' @ cid @ path,
         ''https://'' @ cid @ ''.ipfs.nftstorage.link'' @ path,
         ''https://'' @ cid @ ''.ipfs.dweb.link'' @ path]
      \<and> clientCandidates src =
        [''https://cloudflare-ipfs.com/ipfs/'' @ cid @ path,
         ''https://ipfs.io/ipfs/'' @ cid @ path,
         ''https://nftstorage.link/ipfs/'' @ cid @ path,
         ''https://dweb.link/ipfs/'' @ cid @ path,
         ''https://gateway.pinata.cloud/ipfs/'' @ cid @ path])
   \<and> (join_slash (split_slash src) = src \<and> split_slash src \<noteq> []
        \<and> (\<forall>seg \<in> set (split_slash src). CHR ''/'' \<notin> set seg))
   \<and> ((\<forall>seg \<in> set segs. CHR ''/'' \<notin> set seg) \<longrightarrow> segs \<noteq> [] \<longrightarrow>
        split_pointer (join_slash segs) =
          (case filter (\<lambda>p. p \<noteq> []) segs of
             [] \<Rightarrow> ([], [])
           | c # rest \<Rightarrow> (c, if rest = [] then [] else ''/'' @ join_slash rest)))
   \<and> ((\<forall>seg \<in> set segs. CHR ''/'' \<notin> set seg) \<longrightarrow>
        filter (\<lambda>p. p \<noteq> []) segs = ident # rest \<longrightarrow> \<not> is_http (join_slash segs) \<longrightarrow>
        buildCandidates (join_slash segs) =
          map (\<lambda>host. ''https://'' @ host @ ''/ipfs/'' @ ident
                         @ (if rest = [] then [] else ''/'' @ join_slash rest))
              [''cloudflare-ipfs.com'', ''ipfs.io'', ''nftstorage.link'', ''dweb.link'',
               ''gateway.pinata.cloud'']
          @ map (\<lambda>host. ''https://'' @ ident @ ''.ipfs.'' @ host
                           @ (if rest = [] then [] else ''/'' @ join_slash rest))
              [''nftstorage.link'', ''dweb.link'']
        \<and> clientCandidates (join_slash segs) =
          map (\<lambda>host. ''https://'' @ host @ ''/ipfs/'' @ ident
                         @ (if rest = [] then [] else ''/'' @ join_slash rest))
              [''cloudflare-ipfs.com'', ''ipfs.io'', ''nftstorage.link'', ''dweb.link'',
               ''gateway.pinata.cloud''])"
proof (intro conjI impI)
  assume "\<not> is_http src" "split_pointer src = (cid, path)"
  then show "buildCandidates src =
        [''https://cloudflare-ipfs.com/ipfs/'' @ cid @ path,
         ''https://ipfs.io/ipfs/'' @ cid @ path,
         ''https://nftstorage.link/ipfs/'' @ cid @ path,
         ''https://dweb.link/ipfs/'' @ cid @ path,
         ''https://gateway.pinata.cloud/ipfs/'' @ cid @ path,
         ''https://'' @ cid @ ''.ipfs.nftstorage.link'' @ path,
         ''https://'' @ cid @ ''.ipfs.dweb.link'' @ path]"
    and "clientCandidates src =
        [''https://cloudflare-ipfs.com/ipfs/'' @ cid @ path,
         ''https://ipfs.io/ipfs/'' @ cid @ path,
         ''https://nftstorage.link/ipfs/'' @ cid @ path,
         ''https://dweb.link/ipfs/'' @ cid @ path,
         ''https://gateway.pinata.cloud/ipfs/'' @ cid @ path]"
    by (simp_all add: buildCandidates_def clientCandidates_def pathGateways_def
        subdomainGateways_def)
next
  show "join_slash (split_slash src) = src" by (rule join_split_slash)
  show "split_slash src \<noteq> []" by (rule split_slash_nonempty)
  show "\<forall>seg \<in> set (split_slash src). CHR ''/'' \<notin> set seg"
    using split_slash_segments by blast
next
  assume "\<forall>seg \<in> set segs. CHR ''/'' \<notin> set seg" "segs \<noteq> []"
  then show "split_pointer (join_slash segs) =
          (case filter (\<lambda>p. p \<noteq> []) segs of
             [] \<Rightarrow> ([], [])
           | c # rest \<Rightarrow> (c, if rest = [] then [] else ''/'' @ join_slash rest))"
    by (rule split_pointer_segments)
next
  assume free: "\<forall>seg \<in> set segs. CHR ''/'' \<notin> set seg"
    and parts: "filter (\<lambda>p. p \<noteq> []) segs = ident # rest"
    and raw: "\<not> is_http (join_slash segs)"
  from parts have "segs \<noteq> []" by auto
  with free parts have sp: "split_pointer (join_slash segs) =
      (ident, if rest = [] then [] else ''/'' @ join_slash rest)"
    by (simp add: split_pointer_segments)
  with raw show "buildCandidates (join_slash segs) =
          map (\<lambda>host. ''https://'' @ host @ ''/ipfs/'' @ ident
                         @ (if rest = [] then [] else ''/'' @ join_slash rest))
              [''cloudflare-ipfs.com'', ''ipfs.io'', ''nftstorage.link'', ''dweb.link'',
               ''gateway.pinata.cloud'']
          @ map (\<lambda>host. ''https://'' @ ident @ ''.ipfs.'' @ host
                           @ (if rest = [] then [] else ''/'' @ join_slash rest))
              [''nftstorage.link'', ''dweb.link'']"
    by (simp add: buildCandidates_def pathGateways_def subdomainGateways_def)
  from raw sp show "clientCandidates (join_slash segs) =
          map (\<lambda>host. ''https://'' @ host @ ''/ipfs/'' @ ident
                         @ (if rest = [] then [] else ''/'' @ join_slash rest))
              [''cloudflare-ipfs.com'', ''ipfs.io'', ''nftstorage.link'', ''dweb.link'',
               ''gateway.pinata.cloud'']"
    by (simp add: clientCandidates_def pathGateways_def)
qed

theorem candidate_lists_witness:
  "split_pointer ''QmX//a/b/'' = (''QmX'', ''/a/b'')
   \<and> split_pointer ''/'' = ([], [])
   \<and> buildCandidates ''QmX//a/b/'' =
        [''https://cloudflare-ipfs.com/ipfs/QmX/a/b'',
         ''https://ipfs.io/ipfs/QmX/a/b'',
         ''https://nftstorage.link/ipfs/QmX/a/b'',
         ''https://dweb.link/ipfs/QmX/a/b'',
         ''https://gateway.pinata.cloud/ipfs/QmX/a/b'',
         ''https://QmX.ipfs.nftstorage.link/a/b'',
         ''https://QmX.ipfs.dweb.link/a/b'']
   \<and> clientCandidates ''QmX//a/b/'' =
        [''https://cloudflare-ipfs.com/ipfs/QmX/a/b'',
         ''https://ipfs.io/ipfs/QmX/a/b'',
         ''https://nftstorage.link/ipfs/QmX/a/b'',
         ''https://dweb.link/ipfs/QmX/a/b'',
         ''https://gateway.pinata.cloud/ipfs/QmX/a/b'']
   \<and> buildCandidates ''bafyExampleCID'' =
        [''https://cloudflare-ipfs.com/ipfs/bafyExampleCID'',
         ''https://ipfs.io/ipfs/bafyExampleCID'',
         ''https://nftstorage.link/ipfs/bafyExampleCID'',
         ''https://dweb.link/ipfs/bafyExampleCID'',
         ''https://gateway.pinata.cloud/ipfs/bafyExampleCID'',
         ''https://bafyExampleCID.ipfs.nftstorage.link'',
         ''https://bafyExampleCID.ipfs.dweb.link'']"
proof -
  let ?segs = "[''QmX'', [], ''a'', ''b'', []]"
  have j: "join_slash ?segs = ''QmX//a/b/''" by simp
  have h: "\<not> is_http ''QmX//a/b/''" by (simp add: string_eval)
  note facts = candidate_lists [where src = "''QmX//a/b/''" and cid = "''QmX''"
      and path = "''/a/b''" and segs = ?segs and ident = "''QmX''" and rest = "[''a'', ''b'']"]
  have s: "split_pointer ''QmX//a/b/'' = (''QmX'', ''/a/b'')"
    using facts j by simp
  have lists: "buildCandidates ''QmX//a/b/'' =
        [''https://cloudflare-ipfs.com/ipfs/QmX/a/b'',
         ''https://ipfs.io/ipfs/QmX/a/b'',
         ''https://nftstorage.link/ipfs/QmX/a/b'',
         ''https://dweb.link/ipfs/QmX/a/b'',
         ''https://gateway.pinata.cloud/ipfs/QmX/a/b'',
         ''https://QmX.ipfs.nftstorage.link/a/b'',
         ''https://QmX.ipfs.dweb.link/a/b'']
   \<and> clientCandidates ''QmX//a/b/'' =
        [''https://cloudflare-ipfs.com/ipfs/QmX/a/b'',
         ''https://ipfs.io/ipfs/QmX/a/b'',
         ''https://nftstorage.link/ipfs/QmX/a/b'',
         ''https://dweb.link/ipfs/QmX/a/b'',
         ''https://gateway.pinata.cloud/ipfs/QmX/a/b'']"
    using facts j h by simp
  have e: "split_pointer ''/'' = ([], [])"
    using candidate_lists [where src = "''/''" and cid = "[]" and path = "[]"
      and segs = "[[], []]" and ident = "[]" and rest = "[]"]
    by simp
  have b: "buildCandidates ''bafyExampleCID'' =
        [''https://cloudflare-ipfs.com/ipfs/bafyExampleCID'',
         ''https://ipfs.io/ipfs/bafyExampleCID'',
         ''https://nftstorage.link/ipfs/bafyExampleCID'',
         ''https://dweb.link/ipfs/bafyExampleCID'',
         ''https://gateway.pinata.cloud/ipfs/bafyExampleCID'',
         ''https://bafyExampleCID.ipfs.nftstorage.link'',
         ''https://bafyExampleCID.ipfs.dweb.link'']"
    using candidate_lists [where src = "''bafyExampleCID''" and cid = "''bafyExampleCID''"
      and path = "[]" and segs = "[''bafyExampleCID'']" and ident = "''bafyExampleCID''"
      and rest = "[]"]
    by (simp add: string_eval)
  from s e lists b show ?thesis by blast
qed

subsection \<open>Attribute Extractor\<close>

text \<open>
  Claim C7. For every metadata value and every label, \<^verbatim>\<open>getAttr\<close> gives null when the
  \<^verbatim>\<open>attributes\<close> field is missing or is not a list, and when no entry of the list has
  the label as its trait type; otherwise it gives the \<^verbatim>\<open>value\<close> of the first entry
  whose trait type is exactly the label, null standing for a value that is not
  there. The trait type of an entry is read as \<^verbatim>\<open>trait_type || traitType\<close>: its
  \<^verbatim>\<open>trait_type\<close>, or else (when that is missing or empty) its \<^verbatim>\<open>traitType\<close>. \<open>getAttr\<close>
  is defined on every value, of any shape: no step of it can throw. The scenario of
  the specification is the witness.
\<close>

theorem getAttr_first_match:
  "((\<forall>attrs. get_prop ipfs_data ''attributes'' \<noteq> JArr attrs) \<longrightarrow> getAttr ipfs_data key = JNull)
   \<and> (get_prop ipfs_data ''attributes'' = JArr attrs \<longrightarrow>
        (\<forall>a \<in> set attrs. trait_of a \<noteq> JStr key) \<longrightarrow> getAttr ipfs_data key = JNull)
   \<and> (get_prop ipfs_data ''attributes'' = JArr (before @ a # after) \<longrightarrow>
        (\<forall>b \<in> set before. trait_of b \<noteq> JStr key) \<longrightarrow> trait_of a = JStr key \<longrightarrow>
        getAttr ipfs_data key = nullish (get_prop a ''value'') JNull)
   \<and> (get_prop a ''trait_type'' = JStr key \<longrightarrow> key \<noteq> [] \<longrightarrow> trait_of a = JStr key)
   \<and> (\<not> truthy (get_prop a ''trait_type'') \<longrightarrow> get_prop a ''traitType'' = JStr key \<longrightarrow>
        trait_of a = JStr key)"
proof (intro conjI impI)
  assume "\<forall>attrs. get_prop ipfs_data ''attributes'' \<noteq> JArr attrs"
  then show "getAttr ipfs_data key = JNull"
    by (cases "get_prop ipfs_data ''attributes''") (simp_all add: getAttr_def)
next
  assume "get_prop ipfs_data ''attributes'' = JArr attrs"
    and "\<forall>a \<in> set attrs. trait_of a \<noteq> JStr key"
  moreover from this have "find (\<lambda>a. trait_of a = JStr key) attrs = None"
    by (simp add: find_None_iff)
  ultimately show "getAttr ipfs_data key = JNull"
    by (simp add: getAttr_def)
next
  assume "get_prop ipfs_data ''attributes'' = JArr (before @ a # after)"
    and nb: "\<forall>b \<in> set before. trait_of b \<noteq> JStr key" and "trait_of a = JStr key"
  moreover from nb have "find (\<lambda>a. trait_of a = JStr key) (before @ a # after)
      = find (\<lambda>a. trait_of a = JStr key) (a # after)"
    by (induction before) simp_all
  ultimately show "getAttr ipfs_data key = nullish (get_prop a ''value'') JNull"
    by (simp add: getAttr_def)
next
  assume "get_prop a ''trait_type'' = JStr key" "key \<noteq> []"
  then show "trait_of a = JStr key"
    by (simp add: trait_of_def js_or_def)
next
  assume "\<not> truthy (get_prop a ''trait_type'')" "get_prop a ''traitType'' = JStr key"
  then show "trait_of a = JStr key"
    by (simp add: trait_of_def js_or_def)
qed

theorem getAttr_first_match_witness:
  "getAttr (JObj [(''name'', JStr ''BSc Physics''),
                  (''attributes'', JArr [JObj [(''trait_type'', JStr ''GPA''),
                                               (''value'', JStr ''3.8'')]])]) ''GPA''
     = JStr ''3.8''
   \<and> getAttr (JObj [(''name'', JStr ''BSc Physics''),
                    (''attributes'', JArr [JObj [(''trait_type'', JStr ''GPA''),
                                                 (''value'', JStr ''3.8'')]])]) ''Major''
     = JNull
   \<and> getAttr (JObj [(''attributes'', JArr [JObj [(''traitType'', JStr ''Major''),
                                                 (''value'', JStr ''Physics'')]])]) ''Major''
     = JStr ''Physics''
   \<and> getAttr (JStr ''plain text'') ''GPA'' = JNull"
proof -
  let ?entry = "JObj [(''trait_type'', JStr ''GPA''), (''value'', JStr ''3.8'')]"
  let ?md = "JObj [(''name'', JStr ''BSc Physics''), (''attributes'', JArr [?entry])]"
  let ?entry2 = "JObj [(''traitType'', JStr ''Major''), (''value'', JStr ''Physics'')]"
  let ?md2 = "JObj [(''attributes'', JArr [?entry2])]"
  have attrs: "get_prop ?md ''attributes'' = JArr ([] @ ?entry # [])"
    by simp
  have trait: "trait_of ?entry = JStr ''GPA''"
    using getAttr_first_match [of ?md "''GPA''" "[?entry]" "[]" ?entry "[]"] by simp
  have "getAttr ?md ''GPA'' = nullish (get_prop ?entry ''value'') JNull"
    using getAttr_first_match [of ?md "''GPA''" "[?entry]" "[]" ?entry "[]"] attrs trait
    by simp
  moreover have "getAttr ?md ''Major'' = JNull"
    using getAttr_first_match [of ?md "''Major''" "[?entry]" "[]" ?entry "[]"] trait
    by simp
  moreover have "trait_of ?entry2 = JStr ''Major''"
    using getAttr_first_match [of ?md2 "''Major''" "[?entry2]" "[]" ?entry2 "[]"] by simp
  then have "getAttr ?md2 ''Major'' = nullish (get_prop ?entry2 ''value'') JNull"
    using getAttr_first_match [of ?md2 "''Major''" "[?entry2]" "[]" ?entry2 "[]"] by simp
  moreover have "getAttr (JStr ''plain text'') ''GPA'' = JNull"
    using getAttr_first_match [of "JStr ''plain text''" "''GPA''" "[]" "[]" JNull "[]"] by simp
  ultimately show ?thesis
    by (simp add: nullish_def)
qed

subsection \<open>Date display\<close>

text \<open>
  Claim C8. \<^verbatim>\<open>formatDate\<close> gives the em dash (U+2014, the bytes E2 80 94 of its
  UTF-8 form) for a missing and for an empty argument; for a string that the
  platform parses as a date it gives that date as the platform formats it for the
  locale; a string that does not parse is returned as it is. It is defined on every
  argument: it gives a string and cannot fail.
\<close>

theorem formatDate_cases:
  "formatDate parseDate toLocaleDateString None = [CHR 0xE2, CHR 0x80, CHR 0x94]
   \<and> formatDate parseDate toLocaleDateString (Some []) = [CHR 0xE2, CHR 0x80, CHR 0x94]
   \<and> (d \<noteq> [] \<longrightarrow> parseDate d = Some dt \<longrightarrow>
        formatDate parseDate toLocaleDateString (Some d) = toLocaleDateString dt)
   \<and> (d \<noteq> [] \<longrightarrow> parseDate d = None \<longrightarrow>
        formatDate parseDate toLocaleDateString (Some d) = d)"
  by (simp add: formatDate_def em_dash_def)

theorem formatDate_cases_witness:
  "formatDate (\<lambda>s. if s = ''2024-01-15'' then Some (19737 :: nat) else None)
              (\<lambda>day. ''1/15/2024'') (Some ''2024-01-15'') = ''1/15/2024''
   \<and> formatDate (\<lambda>s. if s = ''2024-01-15'' then Some (19737 :: nat) else None)
                (\<lambda>day. ''1/15/2024'') (Some ''next spring'') = ''next spring''
   \<and> formatDate (\<lambda>s. if s = ''2024-01-15'' then Some (19737 :: nat) else None)
                (\<lambda>day. ''1/15/2024'') None = [CHR 0xE2, CHR 0x80, CHR 0x94]
   \<and> formatDate (\<lambda>s. if s = ''2024-01-15'' then Some (19737 :: nat) else None)
                (\<lambda>day. ''1/15/2024'') (Some []) = [CHR 0xE2, CHR 0x80, CHR 0x94]"
  using formatDate_cases [of "\<lambda>s. if s = ''2024-01-15'' then Some (19737 :: nat) else None"
      "\<lambda>day. ''1/15/2024''" "''2024-01-15''" 19737]
    formatDate_cases [of "\<lambda>s. if s = ''2024-01-15'' then Some (19737 :: nat) else None"
      "\<lambda>day. ''1/15/2024''" "''next spring''"]
  by simp

subsection \<open>Verification status\<close>

text \<open>
  Claim C9. Whenever the upper-cased \<^verbatim>\<open>status\<close> (or \<^verbatim>\<open>result\<close>) of the
  credential-info response is none of the nine recognised words, the status the
  page shows is \<open>VERIFIED\<close>: an unknown status is not treated as a failure.
\<close>

theorem unknown_status_is_verified:
  assumes "rawStatus toString toUpperCase res_data
             \<notin> set (verified_words @ not_found_words @ tampered_words)"
  shows "credential_status toString toUpperCase res_data = VERIFIED"
  using assms by (simp add: credential_status_def mapStatus_def)

theorem unknown_status_is_verified_witness:
  "\<forall>num.
     rawStatus (js_toString num) ascii_toUpperCase (JObj [(''status'', JStr ''pending'')])
       = ''PENDING''
     \<and> ''PENDING'' \<notin> set (verified_words @ not_found_words @ tampered_words)
     \<and> credential_status (js_toString num) ascii_toUpperCase
           (JObj [(''status'', JStr ''pending'')]) = VERIFIED"
proof
  fix num
  have r: "rawStatus (js_toString num) ascii_toUpperCase (JObj [(''status'', JStr ''pending'')])
             = ''PENDING''"
    by (simp add: rawStatus_def js_or_def ascii_toUpperCase_def)
  have n: "''PENDING'' \<notin> set (verified_words @ not_found_words @ tampered_words)"
    by (simp add: verified_words_def not_found_words_def tampered_words_def)
  from n r
    unknown_status_is_verified [of "js_toString num" ascii_toUpperCase
      "JObj [(''status'', JStr ''pending'')]"]
  show "rawStatus (js_toString num) ascii_toUpperCase (JObj [(''status'', JStr ''pending'')])
       = ''PENDING''
     \<and> ''PENDING'' \<notin> set (verified_words @ not_found_words @ tampered_words)
     \<and> credential_status (js_toString num) ascii_toUpperCase
           (JObj [(''status'', JStr ''pending'')]) = VERIFIED"
    by simp
qed

end
